theory Spec2Isabelle
  imports Complex_Main "HOL-Library.Word"
begin

section \<open>JavaScript strings, numbers and buffers\<close>

text \<open>
  A JavaScript string is a sequence of UTF-16 code units; \<open>s.length\<close> counts code units.
  A Node \<open>Buffer\<close> is a sequence of bytes. Strings and buffers are lists of any length
  here; the engine's limit on the length of a string is added to the encoder in a section
  of its own, and memory is not part of the model.
\<close>

type_synonym jschar = "16 word"
type_synonym jsstring = "jschar list"
type_synonym byte = "8 word"
type_synonym buffer = "byte list"

text \<open>A string literal of the source: every character is its code unit.\<close>

definition str :: "string \<Rightarrow> jsstring" where
  "str s = map of_char s"

text \<open>The bytes of an ASCII literal, for stating what a reader finds in the buffer.\<close>

definition bytes :: "string \<Rightarrow> buffer" where
  "bytes s = map of_char s"

definition BACKSLASH :: jschar where
  "BACKSLASH = 0x5C"

definition LPAREN :: jschar where
  "LPAREN = 0x28"

definition RPAREN :: jschar where
  "RPAREN = 0x29"

subsection \<open>UTF-8 encoding: \<open>Buffer.from(s, 'utf-8')\<close> and \<open>Buffer.byteLength(s, 'utf-8')\<close>\<close>

definition is_high_surrogate :: "jschar \<Rightarrow> bool" where
  "is_high_surrogate c \<longleftrightarrow> 0xD800 \<le> c \<and> c \<le> 0xDBFF"

definition is_low_surrogate :: "jschar \<Rightarrow> bool" where
  "is_low_surrogate c \<longleftrightarrow> 0xDC00 \<le> c \<and> c \<le> 0xDFFF"

text \<open>The UTF-8 bytes of one code point (below \<open>0x110000\<close>).\<close>

definition utf8_code_point :: "nat \<Rightarrow> buffer" where
  "utf8_code_point cp =
     (if cp < 0x80 then [of_nat cp]
      else if cp < 0x800 then [of_nat (0xC0 + cp div 64), of_nat (0x80 + cp mod 64)]
      else if cp < 0x10000 then
        [of_nat (0xE0 + cp div 4096), of_nat (0x80 + cp div 64 mod 64), of_nat (0x80 + cp mod 64)]
      else
        [of_nat (0xF0 + cp div 262144), of_nat (0x80 + cp div 4096 mod 64),
         of_nat (0x80 + cp div 64 mod 64), of_nat (0x80 + cp mod 64)])"

text \<open>
  A code unit on its own: itself, or U+FFFD when it is a surrogate without its partner
  (Node replaces a lone surrogate by the replacement character, three bytes).
\<close>

definition utf8_unit :: "jschar \<Rightarrow> buffer" where
  "utf8_unit c =
     utf8_code_point (if is_high_surrogate c \<or> is_low_surrogate c then 0xFFFD else unat c)"

fun utf8 :: "jsstring \<Rightarrow> buffer" where
  "utf8 [] = []"
| "utf8 [c] = utf8_unit c"
| "utf8 (c # d # cs) =
     (if is_high_surrogate c \<and> is_low_surrogate d
      then utf8_code_point (0x10000 + (unat c - 0xD800) * 1024 + (unat d - 0xDC00)) @ utf8 cs
      else utf8_unit c @ utf8 (d # cs))"

definition byteLength :: "jsstring \<Rightarrow> nat" where
  "byteLength s = length (utf8 s)"

subsection \<open>Numbers as text\<close>

definition digit :: "nat \<Rightarrow> jschar" where
  "digit k = of_nat (48 + k)"

text \<open>\<open>String(n)\<close> and \<open>`${n}`\<close> for a non-negative integer \<open>n\<close>: its decimal digits.\<close>

fun show_nat :: "nat \<Rightarrow> jsstring" where
  "show_nat n = (if n < 10 then [digit n] else show_nat (n div 10) @ [digit (n mod 10)])"

declare show_nat.simps [simp del]

text \<open>
  \<open>`${x}`\<close> for a number \<open>x\<close>. Every number the program formats is a multiple of
  \<open>1/4\<close> (string lengths times 14, 11, 9, 7, 6, 5 or 4.5, halved, and taken from 396);
  on these, and below \<open>2^51\<close> in size, the double is exact and JavaScript prints the
  decimal expansion: a sign, the integer part, and \<open>.25\<close>, \<open>.5\<close> or \<open>.75\<close>.
\<close>

definition show_num :: "rat \<Rightarrow> jsstring" where
  "show_num x =
     (let q = nat \<lfloor>\<bar>x\<bar> * 4\<rfloor>
      in (if x < 0 then str ''-'' else []) @ show_nat (q div 4) @
         (if q mod 4 = 0 then []
          else if q mod 4 = 1 then str ''.25''
          else if q mod 4 = 2 then str ''.5''
          else str ''.75''))"

text \<open>\<open>s.padStart(n, c)\<close> with a one-character filler: nothing is cut from a longer \<open>s\<close>.\<close>

definition padStart :: "nat \<Rightarrow> jschar \<Rightarrow> jsstring \<Rightarrow> jsstring" where
  "padStart n c s = replicate (n - length s) c @ s"

text \<open>\<open>lines.join(sep)\<close>.\<close>

fun join :: "jsstring \<Rightarrow> jsstring list \<Rightarrow> jsstring" where
  "join sep [] = []"
| "join sep [x] = x"
| "join sep (x # y # ys) = x @ sep @ join sep (y # ys)"

text \<open>\<open>s.replace(/c/g, r)\<close> for a one-character pattern: every occurrence, left to right.\<close>

definition replace_all :: "jschar \<Rightarrow> jsstring \<Rightarrow> jsstring \<Rightarrow> jsstring" where
  "replace_all c r s = concat (map (\<lambda>x. if x = c then r else [x]) s)"

section \<open>The certificate encoder\<close>

definition escapeText :: "jsstring \<Rightarrow> jsstring" where
  "escapeText text =
     replace_all RPAREN [BACKSLASH, RPAREN]
       (replace_all LPAREN [BACKSLASH, LPAREN]
         (replace_all BACKSLASH [BACKSLASH, BACKSLASH] text))"

record CertificateRequest =
  name :: jsstring
  course :: jsstring
  date :: jsstring
  certificate_id :: jsstring

text \<open>\<open>s.length\<close> as a number.\<close>

definition strlen :: "jsstring \<Rightarrow> rat" where
  "strlen s = of_nat (length s)"

definition pageWidth :: rat where
  "pageWidth = 792"

definition pageHeight :: rat where
  "pageHeight = 612"

definition centerX :: rat where
  "centerX = pageWidth / 2"

text \<open>The operators pushed onto \<open>contentLines\<close>, in the order of the pushes.\<close>

definition contentLines :: "'a CertificateRequest_scheme \<Rightarrow> jsstring list" where
  "contentLines data =
     (let certLabel = str ''CERTIFICATE'';
          certLabelWidth = strlen certLabel * 9;
          ofLabel = str ''OF COMPLETION'';
          ofLabelWidth = strlen ofLabel * 7;
          certifyText = str ''This is to certify that'';
          certifyWidth = strlen certifyText * 6;
          nameWidth = strlen (name data) * 14;
          completedText = str ''has successfully completed the course'';
          completedWidth = strlen completedText * 6;
          courseWidth = strlen (course data) * 11;
          dateLabel = str ''Completed on: '' @ date data;
          dateWidth = strlen dateLabel * 6;
          idLabel = str ''Certificate ID: '' @ certificate_id data;
          idWidth = strlen idLabel * 4.5;
          brandLabel = str ''Powered by CertifyFlow'';
          brandWidth = strlen brandLabel * 5
      in
      [ str ''0.15 0.15 0.15 RG'',
        str ''3 w'',
        str ''30 30 '' @ show_num (pageWidth - 60) @ str '' '' @ show_num (pageHeight - 60) @ str '' re S'',
        str ''0.4 0.4 0.4 RG'',
        str ''1.5 w'',
        str ''42 42 '' @ show_num (pageWidth - 84) @ str '' '' @ show_num (pageHeight - 84) @ str '' re S'',
        str ''0.2 0.2 0.2 RG'',
        str ''2 w'',
        str ''50 552 m 50 562 l S'',
        str ''50 562 m 60 562 l S'',
        show_num (pageWidth - 50) @ str '' 552 m '' @ show_num (pageWidth - 50) @ str '' 562 l S'',
        show_num (pageWidth - 50) @ str '' 562 m '' @ show_num (pageWidth - 60) @ str '' 562 l S'',
        str ''50 60 m 50 50 l S'',
        str ''50 50 m 60 50 l S'',
        show_num (pageWidth - 50) @ str '' 60 m '' @ show_num (pageWidth - 50) @ str '' 50 l S'',
        show_num (pageWidth - 50) @ str '' 50 m '' @ show_num (pageWidth - 60) @ str '' 50 l S'',
        str ''0.3 0.3 0.3 RG'',
        str ''1 w'',
        show_num (centerX - 180) @ str '' 520 m '' @ show_num (centerX + 180) @ str '' 520 l S'',
        str ''BT'',
        str ''/F2 14 Tf'',
        str ''0.35 0.35 0.35 rg'',
        show_num (centerX - certLabelWidth / 2) @ str '' 535 Td'',
        str ''('' @ escapeText certLabel @ str '') Tj'',
        str ''ET'',
        str ''BT'',
        str ''/F2 11 Tf'',
        str ''0.45 0.45 0.45 rg'',
        show_num (centerX - ofLabelWidth / 2) @ str '' 505 Td'',
        str ''('' @ escapeText ofLabel @ str '') Tj'',
        str ''ET'',
        str ''BT'',
        str ''/F1 12 Tf'',
        str ''0.4 0.4 0.4 rg'',
        show_num (centerX - certifyWidth / 2) @ str '' 455 Td'',
        str ''('' @ escapeText certifyText @ str '') Tj'',
        str ''ET'',
        str ''BT'',
        str ''/F2 28 Tf'',
        str ''0.1 0.1 0.1 rg'',
        show_num (centerX - nameWidth / 2) @ str '' 410 Td'',
        str ''('' @ escapeText (name data) @ str '') Tj'',
        str ''ET'',
        str ''0.3 0.3 0.3 RG'',
        str ''0.8 w'',
        show_num (centerX - 140) @ str '' 400 m '' @ show_num (centerX + 140) @ str '' 400 l S'',
        str ''BT'',
        str ''/F1 12 Tf'',
        str ''0.4 0.4 0.4 rg'',
        show_num (centerX - completedWidth / 2) @ str '' 370 Td'',
        str ''('' @ escapeText completedText @ str '') Tj'',
        str ''ET'',
        str ''BT'',
        str ''/F2 22 Tf'',
        str ''0.15 0.15 0.15 rg'',
        show_num (centerX - courseWidth / 2) @ str '' 330 Td'',
        str ''('' @ escapeText (course data) @ str '') Tj'',
        str ''ET'',
        str ''0.5 0.5 0.5 RG'',
        str ''0.5 w'',
        show_num (centerX - 100) @ str '' 320 m '' @ show_num (centerX + 100) @ str '' 320 l S'',
        str ''BT'',
        str ''/F1 11 Tf'',
        str ''0.4 0.4 0.4 rg'',
        show_num (centerX - dateWidth / 2) @ str '' 280 Td'',
        str ''('' @ escapeText dateLabel @ str '') Tj'',
        str ''ET'',
        str ''0.3 0.3 0.3 RG'',
        str ''0.8 w'',
        str ''160 160 m 320 160 l S'',
        str ''BT'',
        str ''/F1 9 Tf'',
        str ''0.45 0.45 0.45 rg'',
        str ''200 145 Td'',
        str ''(Authorized Signature) Tj'',
        str ''ET'',
        str ''0.3 0.3 0.3 RG'',
        str ''0.8 w'',
        show_num (pageWidth - 320) @ str '' 160 m '' @ show_num (pageWidth - 160) @ str '' 160 l S'',
        str ''BT'',
        str ''/F1 9 Tf'',
        str ''0.45 0.45 0.45 rg'',
        show_num (pageWidth - 280) @ str '' 145 Td'',
        str ''(Program Director) Tj'',
        str ''ET'',
        str ''BT'',
        str ''/F3 8 Tf'',
        str ''0.55 0.55 0.55 rg'',
        show_num (centerX - idWidth / 2) @ str '' 80 Td'',
        str ''('' @ escapeText idLabel @ str '') Tj'',
        str ''ET'',
        str ''BT'',
        str ''/F2 8 Tf'',
        str ''0.65 0.65 0.65 rg'',
        show_num (centerX - brandWidth / 2) @ str '' 62 Td'',
        str ''('' @ escapeText brandLabel @ str '') Tj'',
        str ''ET'',
        str ''0.3 0.3 0.3 RG'',
        str ''1 w'',
        show_num (centerX - 180) @ str '' 95 m '' @ show_num (centerX + 180) @ str '' 95 l S'' ])"

definition contentStream :: "'a CertificateRequest_scheme \<Rightarrow> jsstring" where
  "contentStream data = join (str ''\<newline>'') (contentLines data)"

text \<open>
  The seven pushes onto \<open>objects\<close>, each followed by \<open>objNum++\<close>; the result is the
  array and the final value of \<open>objNum\<close>.
\<close>

definition build_objects :: "jsstring \<Rightarrow> jsstring list \<times> nat" where
  "build_objects stream =
     (let objects = [];
          objNum = (1::nat);
          objects = objects @
            [show_nat objNum @ str '' 0 obj\<newline><< /Type /Catalog /Pages 2 0 R >>\<newline>endobj''];
          objNum = objNum + 1;
          objects = objects @
            [show_nat objNum @ str '' 0 obj\<newline><< /Type /Pages /Kids [3 0 R] /Count 1 >>\<newline>endobj''];
          objNum = objNum + 1;
          objects = objects @
            [show_nat objNum @ str '' 0 obj\<newline><< /Type /Page /Parent 2 0 R /MediaBox [0 0 '' @
             show_num pageWidth @ str '' '' @ show_num pageHeight @
             str ''] /Contents 4 0 R /Resources << /Font << /F1 5 0 R /F2 6 0 R /F3 7 0 R >> >> >>\<newline>endobj''];
          objNum = objNum + 1;
          streamBytes = utf8 stream;
          objects = objects @
            [show_nat objNum @ str '' 0 obj\<newline><< /Length '' @ show_nat (length streamBytes) @
             str '' >>\<newline>stream\<newline>'' @ stream @ str ''\<newline>endstream\<newline>endobj''];
          objNum = objNum + 1;
          objects = objects @
            [show_nat objNum @
             str '' 0 obj\<newline><< /Type /Font /Subtype /Type1 /BaseFont /Helvetica /Encoding /WinAnsiEncoding >>\<newline>endobj''];
          objNum = objNum + 1;
          objects = objects @
            [show_nat objNum @
             str '' 0 obj\<newline><< /Type /Font /Subtype /Type1 /BaseFont /Helvetica-Bold /Encoding /WinAnsiEncoding >>\<newline>endobj''];
          objNum = objNum + 1;
          objects = objects @
            [show_nat objNum @
             str '' 0 obj\<newline><< /Type /Font /Subtype /Type1 /BaseFont /Courier /Encoding /WinAnsiEncoding >>\<newline>endobj''];
          objNum = objNum + 1
      in (objects, objNum))"

text \<open>
  The first loop of the assembly: before each object the byte length of the text so far
  is pushed onto \<open>offsets\<close>, then the object and a newline are appended.
\<close>

fun append_objects :: "jsstring \<Rightarrow> nat list \<Rightarrow> jsstring list \<Rightarrow> jsstring \<times> nat list" where
  "append_objects pdf offsets [] = (pdf, offsets)"
| "append_objects pdf offsets (obj # objs) =
     append_objects (pdf @ obj @ str ''\<newline>'') (offsets @ [byteLength pdf]) objs"

text \<open>The second loop: one cross-reference line per recorded offset.\<close>

fun append_xref :: "jsstring \<Rightarrow> nat list \<Rightarrow> jsstring" where
  "append_xref pdf [] = pdf"
| "append_xref pdf (offset # offsets) =
     append_xref (pdf @ padStart 10 (digit 0) (show_nat offset) @ str '' 00000 n \<newline>'') offsets"

text \<open>The text and the offsets after the first loop.\<close>

definition pdf_objects :: "'a CertificateRequest_scheme \<Rightarrow> jsstring \<times> nat list" where
  "pdf_objects data =
     append_objects (str ''%PDF-1.4\<newline>'') [] (fst (build_objects (contentStream data)))"

definition offsets :: "'a CertificateRequest_scheme \<Rightarrow> nat list" where
  "offsets data = snd (pdf_objects data)"

definition xrefOffset :: "'a CertificateRequest_scheme \<Rightarrow> nat" where
  "xrefOffset data = byteLength (fst (pdf_objects data))"

text \<open>The whole text of the file, as held in \<open>pdf\<close> before the final encoding.\<close>

definition pdf_text :: "'a CertificateRequest_scheme \<Rightarrow> jsstring" where
  "pdf_text data =
     (let objNum = snd (build_objects (contentStream data));
          pdf = fst (pdf_objects data);
          pdf = pdf @ str ''xref\<newline>0 '' @ show_nat objNum @ str ''\<newline>0000000000 65535 f \<newline>'';
          pdf = append_xref pdf (offsets data);
          pdf = pdf @ str ''trailer\<newline><< /Size '' @ show_nat objNum @
                str '' /Root 1 0 R >>\<newline>startxref\<newline>'' @ show_nat (xrefOffset data) @
                str ''\<newline>%%EOF''
      in pdf)"

definition generateCertificatePDF :: "'a CertificateRequest_scheme \<Rightarrow> buffer" where
  "generateCertificatePDF data = utf8 (pdf_text data)"

text \<open>The array \<open>objects\<close> of the encoder.\<close>

definition objects :: "'a CertificateRequest_scheme \<Rightarrow> jsstring list" where
  "objects data = fst (build_objects (contentStream data))"

section \<open>Reading the output back\<close>

text \<open>
  The specification states its properties through what a reader of the output finds.
  The definitions of this section are that reader; they follow the specification,
  not the source.
\<close>

text \<open>Text made of code units below 128 only: one byte each in UTF-8.\<close>

definition ascii :: "jsstring \<Rightarrow> bool" where
  "ascii s \<longleftrightarrow> (\<forall>c \<in> set s. c < 0x80)"

text \<open>
  Reversing the escaping rule, left to right: a backslash followed by a backslash or a
  parenthesis stands for that character.
\<close>

fun unescapeText :: "jsstring \<Rightarrow> jsstring" where
  "unescapeText [] = []"
| "unescapeText [c] = [c]"
| "unescapeText (c # d # cs) =
     (if c = BACKSLASH \<and> (d = BACKSLASH \<or> d = LPAREN \<or> d = RPAREN)
      then d # unescapeText cs
      else c # unescapeText (d # cs))"

text \<open>The escaping rule on one code unit.\<close>

definition escape_unit :: "jschar \<Rightarrow> jsstring" where
  "escape_unit c = (if c = BACKSLASH \<or> c = LPAREN \<or> c = RPAREN then [BACKSLASH, c] else [c])"

text \<open>A decimal number in the file.\<close>

definition is_digit :: "byte \<Rightarrow> bool" where
  "is_digit b \<longleftrightarrow> 0x30 \<le> b \<and> b \<le> 0x39"

definition read_decimal :: "buffer \<Rightarrow> nat" where
  "read_decimal ds = foldl (\<lambda>n b. 10 * n + (unat b - 48)) 0 ds"

text \<open>
  A reader starts at the end of the file: the last line is \<open>%%EOF\<close>, the line before
  it is the decimal offset of the cross-reference section, and the line before that is
  the keyword \<open>startxref\<close>.
\<close>

definition read_startxref :: "buffer \<Rightarrow> nat option" where
  "read_startxref buf =
     (let r = rev buf;
          ds = takeWhile is_digit (drop 6 r)
      in if take 6 r = rev (bytes ''\<newline>%%EOF'') \<and> ds \<noteq> [] \<and>
            take 10 (drop (6 + length ds) r) = rev (bytes ''startxref\<newline>'')
         then Some (read_decimal (rev ds)) else None)"

text \<open>
  At that offset the reader expects the keyword \<open>xref\<close> and a line with the number of
  the first object and the number of entries; it returns both and the position of the
  first entry.
\<close>

definition read_xref_header :: "buffer \<Rightarrow> nat \<Rightarrow> (nat \<times> nat \<times> nat) option" where
  "read_xref_header buf pos =
     (let s = drop pos buf;
          a = takeWhile is_digit (drop 5 s);
          b = takeWhile is_digit (drop (6 + length a) s);
          e = 6 + length a + length b
      in if take 5 s = bytes ''xref\<newline>'' \<and> a \<noteq> [] \<and> b \<noteq> [] \<and>
            take 1 (drop (5 + length a) s) = bytes '' '' \<and> take 1 (drop e s) = bytes ''\<newline>''
         then Some (read_decimal a, read_decimal b, pos + e + 1) else None)"

text \<open>
  An entry is 20 bytes: ten digits, a space, five digits, a space, \<open>n\<close> (in use, the
  ten digits are the byte offset of the object) or \<open>f\<close> (free), and a two-byte end of
  line.
\<close>

datatype xref_entry = InUse nat nat | Free nat nat

definition read_xref_entry :: "buffer \<Rightarrow> nat \<Rightarrow> xref_entry option" where
  "read_xref_entry buf pos =
     (let e = take 20 (drop pos buf);
          off = take 10 e;
          gen = take 5 (drop 11 e)
      in if length e = 20 \<and> list_all is_digit off \<and> list_all is_digit gen \<and>
            take 1 (drop 10 e) = bytes '' '' \<and> take 1 (drop 16 e) = bytes '' '' \<and>
            drop 18 e = bytes '' \<newline>''
         then (if take 1 (drop 17 e) = bytes ''n'' then Some (InUse (read_decimal off) (read_decimal gen))
               else if take 1 (drop 17 e) = bytes ''f'' then Some (Free (read_decimal off) (read_decimal gen))
               else None)
         else None)"

text \<open>The bytes that begin object \<open>n\<close>.\<close>

definition object_keyword :: "nat \<Rightarrow> buffer" where
  "object_keyword n = utf8 (show_nat n @ str '' 0 obj'')"

text \<open>Whether the bytes \<open>pat\<close> stand in \<open>buf\<close> at position \<open>pos\<close>.\<close>

definition bytes_at :: "buffer \<Rightarrow> nat \<Rightarrow> buffer \<Rightarrow> bool" where
  "bytes_at buf pos pat \<longleftrightarrow> take (length pat) (drop pos buf) = pat"

text \<open>
  The stream object at a byte position of a file: the digits of its number and
  \<open>0 obj\<close>, the dictionary \<open><< /Length n >>\<close>, the keyword \<open>stream\<close> and a newline,
  then \<open>n\<close> bytes of payload, which a newline and \<open>endstream\<close> follow. The reader
  returns the payload.
\<close>

definition read_stream :: "buffer \<Rightarrow> nat \<Rightarrow> buffer option" where
  "read_stream buf pos =
     (let s = drop pos buf;
          n = takeWhile is_digit s;
          d = drop (length n) s;
          ds = takeWhile is_digit (drop 18 d);
          r = drop (18 + length ds) d;
          payload = take (read_decimal ds) (drop 11 r)
      in if n \<noteq> [] \<and> take 18 d = bytes '' 0 obj\<newline><< /Length '' \<and> ds \<noteq> [] \<and>
            take 11 r = bytes '' >>\<newline>stream\<newline>'' \<and>
            length payload = read_decimal ds \<and>
            take 10 (drop (11 + read_decimal ds) r) = bytes ''\<newline>endstream''
         then Some payload else None)"

text \<open>
  The string literal of a text, as the specification words it: the text between
  parentheses, with a backslash before each backslash and each parenthesis of it.
\<close>

definition string_literal :: "jsstring \<Rightarrow> jsstring" where
  "string_literal s = str ''('' @ concat (map escape_unit s) @ str '')''"

text \<open>
  Reading a string literal at the start of a text. After the opening parenthesis, a
  backslash gives the code unit after it as it is, the first closing parenthesis without
  a backslash ends the literal, and an opening parenthesis without one is refused (the
  rule escapes every one). The reader returns the text of the literal and what follows.
\<close>

fun read_literal_body :: "jsstring \<Rightarrow> (jsstring \<times> jsstring) option" where
  "read_literal_body [] = None"
| "read_literal_body [c] = (if c = RPAREN then Some ([], []) else None)"
| "read_literal_body (c # d # cs) =
     (if c = RPAREN then Some ([], d # cs)
      else if c = LPAREN then None
      else if c = BACKSLASH then map_option (\<lambda>(t, r). (d # t, r)) (read_literal_body cs)
      else map_option (\<lambda>(t, r). (c # t, r)) (read_literal_body (d # cs)))"

definition read_literal :: "jsstring \<Rightarrow> (jsstring \<times> jsstring) option" where
  "read_literal s = (case s of [] \<Rightarrow> None | c # cs \<Rightarrow> if c = LPAREN then read_literal_body cs else None)"

text \<open>
  The lines \<open>ls\<close> are emitted from line \<open>k\<close> on when the payload of the stream object
  that the returned buffer holds at the fourth recorded offset is the UTF-8 encoding of
  the content stream and has the encoding of \<open>ls\<close>, one line after the other, at the
  byte position that follows the first \<open>k\<close> lines; the content stream is then these
  \<open>k\<close> lines, the lines \<open>ls\<close> and the lines after them.
\<close>

definition line_position :: "'a CertificateRequest_scheme \<Rightarrow> nat \<Rightarrow> nat" where
  "line_position data k = byteLength (join (str ''\<newline>'') (take k (contentLines data)) @ str ''\<newline>'')"

definition emitted_lines :: "'a CertificateRequest_scheme \<Rightarrow> nat \<Rightarrow> jsstring list \<Rightarrow> bool" where
  "emitted_lines data k ls \<longleftrightarrow>
     (case read_stream (generateCertificatePDF data) (offsets data ! 3) of
        None \<Rightarrow> False
      | Some payload \<Rightarrow>
          payload = utf8 (contentStream data) \<and>
          bytes_at payload (line_position data k) (utf8 (join (str ''\<newline>'') ls)))
     \<and> contentStream data =
         join (str ''\<newline>'') (take k (contentLines data)) @ str ''\<newline>'' @
         join (str ''\<newline>'') ls @ str ''\<newline>'' @
         join (str ''\<newline>'') (drop (k + length ls) (contentLines data))"

section \<open>The parts of the output\<close>

text \<open>
  Names for the pieces of the encoder's text, used to state and prove the properties.
  Each is proved equal to what the encoder computes.
\<close>

text \<open>The text held in \<open>pdf\<close> when the first loop reaches object \<open>k + 1\<close>; for \<open>k = 7\<close>, when the loop has ended.\<close>

definition text_before :: "'a CertificateRequest_scheme \<Rightarrow> nat \<Rightarrow> jsstring" where
  "text_before data k =
     str ''%PDF-1.4\<newline>'' @ concat (map (\<lambda>obj. obj @ str ''\<newline>'') (take k (objects data)))"

text \<open>One line of the second loop.\<close>

definition xref_line :: "nat \<Rightarrow> jsstring" where
  "xref_line offset = padStart 10 (digit 0) (show_nat offset) @ str '' 00000 n \<newline>''"

text \<open>Everything appended after the first loop, with \<open>objNum = 8\<close>.\<close>

definition xref_section :: "'a CertificateRequest_scheme \<Rightarrow> jsstring" where
  "xref_section data =
     str ''xref\<newline>0 8\<newline>0000000000 65535 f \<newline>'' @
     concat (map xref_line (offsets data)) @
     str ''trailer\<newline><< /Size 8 /Root 1 0 R >>\<newline>startxref\<newline>'' @
     show_nat (xrefOffset data) @ str ''\<newline>%%EOF''"

text \<open>The seven objects without their \<open>n 0 obj\<close> and \<open>endobj\<close> lines.\<close>

definition object_bodies :: "'a CertificateRequest_scheme \<Rightarrow> jsstring list" where
  "object_bodies data =
    [str ''<< /Type /Catalog /Pages 2 0 R >>'',
     str ''<< /Type /Pages /Kids [3 0 R] /Count 1 >>'',
     str ''<< /Type /Page /Parent 2 0 R /MediaBox [0 0 '' @
       show_num pageWidth @ str '' '' @ show_num pageHeight @
       str ''] /Contents 4 0 R /Resources << /Font << /F1 5 0 R /F2 6 0 R /F3 7 0 R >> >> >>'',
     str ''<< /Length '' @ show_nat (byteLength (contentStream data)) @
       str '' >>\<newline>stream\<newline>'' @ contentStream data @ str ''\<newline>endstream'',
     str ''<< /Type /Font /Subtype /Type1 /BaseFont /Helvetica /Encoding /WinAnsiEncoding >>'',
     str ''<< /Type /Font /Subtype /Type1 /BaseFont /Helvetica-Bold /Encoding /WinAnsiEncoding >>'',
     str ''<< /Type /Font /Subtype /Type1 /BaseFont /Courier /Encoding /WinAnsiEncoding >>'']"

text \<open>An object as pushed onto \<open>objects\<close>.\<close>

definition numbered_object :: "nat \<Rightarrow> jsstring \<Rightarrow> jsstring" where
  "numbered_object n body = show_nat n @ str '' 0 obj\<newline>'' @ body @ str ''\<newline>endobj''"

text \<open>The text the first loop appends from object \<open>k + 1\<close> on.\<close>

definition text_from :: "'a CertificateRequest_scheme \<Rightarrow> nat \<Rightarrow> jsstring" where
  "text_from data k = concat (map (\<lambda>obj. obj @ str ''\<newline>'') (drop k (objects data)))"

text \<open>The bytes of one line of the cross-reference table.\<close>

definition entry_bytes :: "nat \<Rightarrow> buffer" where
  "entry_bytes offset = map ucast (padStart 10 (digit 0) (show_nat offset)) @ bytes '' 00000 n \<newline>''"

text \<open>The request of the specification's example.\<close>

definition alice :: CertificateRequest where
  "alice = \<lparr>name = str ''Alice Johnson'', course = str ''Advanced React'',
             date = str ''2025-01-15'', certificate_id = str ''CERT-AJ-2025-001''\<rparr>"

section \<open>The request handler\<close>

text \<open>
  The handler receives parsed JSON, so its values are not typed: a property may be
  missing, and a field may hold any JSON value. A number is the rational it denotes
  (every double is one); an object is the list of its own properties, looked up by key.
\<close>

datatype jsval =
    Undefined
  | Null
  | Bool bool
  | Num rat
  | Str jsstring
  | Arr "jsval list"
  | Obj "(jsstring \<times> jsval) list"

text \<open>
  What a statement can throw. No statement of the source throws a value of its own; the
  exceptions are the engine's, and all of them are instances of \<open>Error\<close>.
  \<open>NotAnError\<close> stands for a thrown value that is not, for the other branch of
  \<open>error instanceof Error\<close>.
\<close>

datatype thrown = TypeError | SyntaxError | RangeError | NotAnError

definition bind :: "thrown + 'a \<Rightarrow> ('a \<Rightarrow> thrown + 'b) \<Rightarrow> thrown + 'b" where
  "bind m f = (case m of Inl e \<Rightarrow> Inl e | Inr x \<Rightarrow> f x)"

text \<open>
  \<open>v.key\<close>, for the keys the handler reads (none of them is a property of a string,
  an array, a number or a boolean): reading a property of \<open>null\<close> or \<open>undefined\<close>
  throws.
\<close>

fun get :: "jsval \<Rightarrow> string \<Rightarrow> thrown + jsval" where
  "get Undefined key = Inl TypeError"
| "get Null key = Inl TypeError"
| "get (Obj props) key = Inr (case map_of props (str key) of Some v \<Rightarrow> v | None \<Rightarrow> Undefined)"
| "get v key = Inr Undefined"

fun truthy :: "jsval \<Rightarrow> bool" where
  "truthy Undefined = False"
| "truthy Null = False"
| "truthy (Bool b) = b"
| "truthy (Num n) = (n \<noteq> 0)"
| "truthy (Str s) = (s \<noteq> [])"
| "truthy (Arr xs) = True"
| "truthy (Obj props) = True"

text \<open>\<open>a || b\<close>.\<close>

definition or_else :: "jsval \<Rightarrow> jsval \<Rightarrow> jsval" where
  "or_else a b = (if truthy a then a else b)"

text \<open>
  \<open>`${v}`\<close>: the conversion to a string in a template literal. An array joins its
  elements with commas, \<open>null\<close> and \<open>undefined\<close> elements as the empty string; an
  object is \<open>[object Object]\<close>, unless it has a property \<open>toString\<close> of its own,
  which parsed JSON cannot make callable, and the conversion throws. The text of a
  number is the engine's (the shortest decimal that reads back as the same double,
  with an exponent from \<open>1e+21\<close> on): it is the parameter \<open>number_text\<close>.
\<close>

fun to_string :: "(rat \<Rightarrow> jsstring) \<Rightarrow> jsval \<Rightarrow> thrown + jsstring"
  and to_strings :: "(rat \<Rightarrow> jsstring) \<Rightarrow> jsval list \<Rightarrow> thrown + jsstring list" where
  "to_string number_text Undefined = Inr (str ''undefined'')"
| "to_string number_text Null = Inr (str ''null'')"
| "to_string number_text (Bool b) = Inr (if b then str ''true'' else str ''false'')"
| "to_string number_text (Num n) = Inr (number_text n)"
| "to_string number_text (Str s) = Inr s"
| "to_string number_text (Arr xs) =
     bind (to_strings number_text xs) (\<lambda>ss. Inr (join (str '','') ss))"
| "to_string number_text (Obj props) =
     (if map_of props (str ''toString'') = None then Inr (str ''[object Object]'') else Inl TypeError)"
| "to_strings number_text [] = Inr []"
| "to_strings number_text (x # xs) =
     bind (if x = Null \<or> x = Undefined then Inr [] else to_string number_text x)
       (\<lambda>s. bind (to_strings number_text xs) (\<lambda>ss. Inr (s # ss)))"

text \<open>
  The encoder as the handler calls it, with values of any type. \<open>name.length\<close> throws
  on \<open>null\<close> and \<open>undefined\<close>, and \<open>text.replace\<close> in \<open>escapeText\<close> is not a
  function unless the text is a string: so \<open>name\<close>, then \<open>course\<close>, must be strings.
  \<open>date\<close> and \<open>certificate_id\<close> are only used in template literals.
\<close>

definition generateCertificatePDF_js ::
  "(rat \<Rightarrow> jsstring) \<Rightarrow> jsval \<Rightarrow> jsval \<Rightarrow> jsval \<Rightarrow> jsval \<Rightarrow> thrown + buffer" where
  "generateCertificatePDF_js number_text n c d i =
     (case n of
        Str name' \<Rightarrow>
          (case c of
             Str course' \<Rightarrow>
               bind (to_string number_text d) (\<lambda>date'.
               bind (to_string number_text i) (\<lambda>certificate_id'.
                 Inr (generateCertificatePDF
                   \<lparr>name = name', course = course', date = date', certificate_id = certificate_id'\<rparr>)))
           | _ \<Rightarrow> Inl TypeError)
      | _ \<Rightarrow> Inl TypeError)"

text \<open>\<open>s.replace(/[^a-zA-Z0-9]/g, '_')\<close>, code unit by code unit.\<close>

definition is_alnum :: "jschar \<Rightarrow> bool" where
  "is_alnum c \<longleftrightarrow> (0x61 \<le> c \<and> c \<le> 0x7A) \<or> (0x41 \<le> c \<and> c \<le> 0x5A) \<or> (0x30 \<le> c \<and> c \<le> 0x39)"

definition sanitize :: "jsstring \<Rightarrow> jsstring" where
  "sanitize s = map (\<lambda>c. if is_alnum c then c else 0x5F) s"

definition replace_non_alnum :: "jsval \<Rightarrow> thrown + jsstring" where
  "replace_non_alnum v = (case v of Str s \<Rightarrow> Inr (sanitize s) | _ \<Rightarrow> Inl TypeError)"

text \<open>\<open>buf.toString('base64')\<close>.\<close>

definition base64_char :: "nat \<Rightarrow> jschar" where
  "base64_char n = str ''ABCDEFGHIJKLMNOPQRSTUVWXYZabcdefghijklmnopqrstuvwxyz0123456789+/'' ! n"

fun base64 :: "buffer \<Rightarrow> jsstring" where
  "base64 [] = []"
| "base64 [a] =
     [base64_char (unat a div 4), base64_char (unat a mod 4 * 16), 0x3D, 0x3D]"
| "base64 [a, b] =
     [base64_char (unat a div 4), base64_char (unat a mod 4 * 16 + unat b div 16),
      base64_char (unat b mod 16 * 4), 0x3D]"
| "base64 (a # b # c # rest) =
     [base64_char (unat a div 4), base64_char (unat a mod 4 * 16 + unat b div 16),
      base64_char (unat b mod 16 * 4 + unat c div 64), base64_char (unat c mod 64)] @ base64 rest"

text \<open>
  What the handler takes from the engine. The clock, read once per participant at most:
  \<open>today k\<close> is \<open>new Date().toISOString().split('T')[0]\<close> and \<open>now k\<close> is
  \<open>Date.now()\<close> in iteration \<open>k\<close> of the loop. And the text of a number.
\<close>

record engine =
  today :: "nat \<Rightarrow> jsstring"
  now :: "nat \<Rightarrow> nat"
  number_text :: "rat \<Rightarrow> jsstring"

record certificate =
  entry_name :: jsval
  entry_email :: jsval
  entry_course :: jsval
  entry_date :: jsval
  entry_certificate_id :: jsval
  pdf_base64 :: jsstring
  filename :: jsstring

text \<open>The body of the loop for participant \<open>p\<close>, in iteration \<open>k\<close>.\<close>

definition certificate_for :: "engine \<Rightarrow> nat \<Rightarrow> jsval \<Rightarrow> thrown + certificate" where
  "certificate_for clk k p =
     bind (get p ''name'') (\<lambda>p_name.
     bind (get p ''course'') (\<lambda>p_course.
     bind (get p ''date'') (\<lambda>p_date.
     bind (get p ''certificate_id'') (\<lambda>p_certificate_id.
     bind (generateCertificatePDF_js (number_text clk)
             (or_else p_name (Str (str ''Participant'')))
             (or_else p_course (Str (str ''Course'')))
             (or_else p_date (Str (today clk k)))
             (or_else p_certificate_id (Str (str ''CERT-'' @ show_nat (now clk k))))) (\<lambda>pdfBuffer.
     bind (replace_non_alnum (or_else p_name (Str (str ''certificate'')))) (\<lambda>sanitizedName.
     bind (get p ''email'') (\<lambda>p_email.
       Inr \<lparr>entry_name = p_name, entry_email = p_email, entry_course = p_course,
            entry_date = p_date, entry_certificate_id = p_certificate_id,
            pdf_base64 = base64 pdfBuffer,
            filename = str ''Certificate_'' @ sanitizedName @ str ''.pdf''\<rparr>)))))))"

text \<open>The loop over the participants; the first exception ends it.\<close>

fun generate_all :: "engine \<Rightarrow> nat \<Rightarrow> jsval list \<Rightarrow> certificate list \<Rightarrow> thrown + certificate list" where
  "generate_all clk k [] certificates = Inr certificates"
| "generate_all clk k (p # ps) certificates =
     bind (certificate_for clk k p) (\<lambda>c. generate_all clk (Suc k) ps (certificates @ [c]))"

text \<open>
  The response: its status and its JSON body, which is either \<open>success: false\<close> with
  an error text, or \<open>success: true\<close> with \<open>total\<close> and the certificates. The error
  text is a literal of the source or the \<open>message\<close> of the exception, which the engine
  words.
\<close>

datatype error_text = Literal jsstring | MessageOf thrown

datatype response_json = Failed error_text | Succeeded nat "certificate list"

record response =
  status :: nat
  json :: response_json

text \<open>
  The \<open>try\<close> block. The request is \<open>None\<close> when its body is not JSON and
  \<open>request.json()\<close> rejects.
\<close>

definition try_block :: "engine \<Rightarrow> jsval option \<Rightarrow> thrown + response" where
  "try_block clk request =
     bind (case request of None \<Rightarrow> Inl SyntaxError | Some body \<Rightarrow> Inr body) (\<lambda>body.
     bind (get body ''participants'') (\<lambda>participants.
       case participants of
         Arr ps \<Rightarrow>
           if length ps = 0
           then Inr \<lparr>status = 400, json = Failed (Literal (str ''participants array is required''))\<rparr>
           else bind (generate_all clk 0 ps []) (\<lambda>certificates.
                  Inr \<lparr>status = 200, json = Succeeded (length certificates) certificates\<rparr>)
       | _ \<Rightarrow> Inr \<lparr>status = 400, json = Failed (Literal (str ''participants array is required''))\<rparr>))"

definition POST :: "engine \<Rightarrow> jsval option \<Rightarrow> response" where
  "POST clk request =
     (case try_block clk request of
        Inr r \<Rightarrow> r
      | Inl error \<Rightarrow>
          \<lparr>status = 500,
           json = Failed (if error \<noteq> NotAnError then MessageOf error
                          else Literal (str ''PDF generation failed''))\<rparr>)"

text \<open>
  The words of the specification about the handler: a body that has a participants
  array, the certificates of a response, and the text a file name is made from (the
  participant's name, or the literal \<open>certificate\<close> of the source when the name is
  missing or empty).
\<close>

definition has_participants_array :: "jsval \<Rightarrow> bool" where
  "has_participants_array body =
     (case body of
        Obj props \<Rightarrow> (case map_of props (str ''participants'') of Some (Arr ps) \<Rightarrow> True | _ \<Rightarrow> False)
      | _ \<Rightarrow> False)"

definition certificates_of :: "response \<Rightarrow> certificate list" where
  "certificates_of r = (case json r of Succeeded n cs \<Rightarrow> cs | Failed e \<Rightarrow> [])"

definition name_for_file :: "jsval \<Rightarrow> jsstring" where
  "name_for_file v = (case v of Str s \<Rightarrow> if s = [] then str ''certificate'' else s | _ \<Rightarrow> str ''certificate'')"

text \<open>
  An engine and three request bodies, for concrete runs of the handler. The numbers of
  these runs are small integers, which \<open>show_num\<close> prints as the engine does.
\<close>

definition clock0 :: engine where
  "clock0 = \<lparr>today = (\<lambda>k. str ''2025-01-15''), now = (\<lambda>k. 1736899200000 + k),
             number_text = show_num\<rparr>"

definition alice_participant :: jsval where
  "alice_participant =
     Obj [(str ''name'', Str (str ''Alice Johnson'')), (str ''email'', Str (str ''alice@example.com'')),
          (str ''course'', Str (str ''Advanced React'')), (str ''date'', Str (str ''2025-01-15'')),
          (str ''certificate_id'', Str (str ''CERT-AJ-2025-001''))]"

definition batch :: "jsval list \<Rightarrow> jsval" where
  "batch ps = Obj [(str ''participants'', Arr ps)]"

definition alice_certificate :: certificate where
  "alice_certificate =
     \<lparr>entry_name = Str (str ''Alice Johnson''), entry_email = Str (str ''alice@example.com''),
      entry_course = Str (str ''Advanced React''), entry_date = Str (str ''2025-01-15''),
      entry_certificate_id = Str (str ''CERT-AJ-2025-001''),
      pdf_base64 = base64 (generateCertificatePDF alice),
      filename = str ''Certificate_Alice_Johnson.pdf''\<rparr>"

section \<open>The engine's limit on the length of a string\<close>

text \<open>
  An engine holds strings up to a maximal length (\<open>2^29 - 24\<close> code units in V8 on a
  64-bit machine), and an operation whose result would be longer throws a
  \<open>RangeError\<close>. The definitions of the encoder above give what it returns when no
  string is too long. This section adds the limit, as a parameter, to the encoder; the
  handler is modelled without it.
\<close>

text \<open>The strings that a call of \<open>escapeText\<close> builds, one for each \<open>replace\<close>.\<close>

definition escapeText_strings :: "jsstring \<Rightarrow> jsstring list" where
  "escapeText_strings text =
     [replace_all BACKSLASH [BACKSLASH, BACKSLASH] text,
      replace_all LPAREN [BACKSLASH, LPAREN] (replace_all BACKSLASH [BACKSLASH, BACKSLASH] text),
      replace_all RPAREN [BACKSLASH, RPAREN]
        (replace_all LPAREN [BACKSLASH, LPAREN] (replace_all BACKSLASH [BACKSLASH, BACKSLASH] text))]"

text \<open>The strings of the first loop: \<open>obj + '\n'\<close>, then the new value of \<open>pdf\<close>.\<close>

fun append_objects_strings :: "jsstring \<Rightarrow> jsstring list \<Rightarrow> jsstring list" where
  "append_objects_strings pdf [] = []"
| "append_objects_strings pdf (obj # objs) =
     [obj @ str ''\<newline>'', pdf @ obj @ str ''\<newline>''] @
     append_objects_strings (pdf @ obj @ str ''\<newline>'') objs"

text \<open>
  The strings of the second loop: \<open>String(offset)\<close>, the padded number, the line, and
  the new value of \<open>pdf\<close>.
\<close>

fun append_xref_strings :: "jsstring \<Rightarrow> nat list \<Rightarrow> jsstring list" where
  "append_xref_strings pdf [] = []"
| "append_xref_strings pdf (offset # rest) =
     [show_nat offset,
      padStart 10 (digit 0) (show_nat offset),
      padStart 10 (digit 0) (show_nat offset) @ str '' 00000 n \<newline>'',
      pdf @ padStart 10 (digit 0) (show_nat offset) @ str '' 00000 n \<newline>''] @
     append_xref_strings (pdf @ padStart 10 (digit 0) (show_nat offset) @ str '' 00000 n \<newline>'') rest"

text \<open>
  The strings that a call of the encoder builds, in the order of the source: the two
  labels, the strings of the nine calls of \<open>escapeText\<close>, the lines pushed, the content
  stream, the objects, and the values of \<open>pdf\<close> up to the last one. The text of a
  number inside a template literal is a part of the literal's result and is not listed
  on its own.
\<close>

definition strings_built :: "'a CertificateRequest_scheme \<Rightarrow> jsstring list" where
  "strings_built data =
     (let dateLabel = str ''Completed on: '' @ date data;
          idLabel = str ''Certificate ID: '' @ certificate_id data;
          texts = [str ''CERTIFICATE'', str ''OF COMPLETION'', str ''This is to certify that'',
                   name data, str ''has successfully completed the course'', course data,
                   dateLabel, idLabel, str ''Powered by CertifyFlow''];
          objNum = snd (build_objects (contentStream data));
          pdf = fst (pdf_objects data);
          head = str ''xref\<newline>0 '' @ show_nat objNum @ str ''\<newline>0000000000 65535 f \<newline>'';
          pdf' = pdf @ head;
          pdf'' = append_xref pdf' (offsets data);
          tail = str ''trailer\<newline><< /Size '' @ show_nat objNum @
                 str '' /Root 1 0 R >>\<newline>startxref\<newline>'' @ show_nat (xrefOffset data) @
                 str ''\<newline>%%EOF''
      in [dateLabel, idLabel] @ concat (map escapeText_strings texts) @
         contentLines data @ [contentStream data] @ objects data @
         append_objects_strings (str ''%PDF-1.4\<newline>'') (objects data) @
         [head, pdf'] @ append_xref_strings pdf' (offsets data) @ [tail, pdf'' @ tail])"

text \<open>
  The encoder on an engine whose strings have at most \<open>max_length\<close> code units: a string
  that would be longer ends the call with a \<open>RangeError\<close>.
\<close>

definition generateCertificatePDF_checked ::
  "nat \<Rightarrow> 'a CertificateRequest_scheme \<Rightarrow> thrown + buffer" where
  "generateCertificatePDF_checked max_length data =
     (if list_all (\<lambda>s. length s \<le> max_length) (strings_built data)
      then Inr (generateCertificatePDF data) else Inl RangeError)"

text \<open>The number of code units of the four fields together.\<close>

definition fields_length :: "'a CertificateRequest_scheme \<Rightarrow> nat" where
  "fields_length data =
     length (name data) + length (course data) + length (date data) + length (certificate_id data)"

text \<open>
  Two requests: a name of 100 letters \<open>W\<close>, wider than the page at 14 points a letter,
  with the other fields empty; and a name of \<open>2^29 - 24\<close> letters, the longest string
  of V8.
\<close>

definition wide :: CertificateRequest where
  "wide = \<lparr>name = replicate 100 0x57, course = [], date = [], certificate_id = []\<rparr>"

definition longest :: CertificateRequest where
  "longest = \<lparr>name = replicate (2 ^ 29 - 24) 0x57, course = str ''Advanced React'',
               date = str ''2025-01-15'', certificate_id = str ''CERT-AJ-2025-001''\<rparr>"

section \<open>Properties\<close>

subsection \<open>UTF-8 over concatenation\<close>

lemma utf8_append:
  "\<not> (a \<noteq> [] \<and> b \<noteq> [] \<and> is_high_surrogate (last a) \<and> is_low_surrogate (hd b))
   \<Longrightarrow> utf8 (a @ b) = utf8 a @ utf8 b"
proof (induction a rule: utf8.induct)
  case 1
  then show ?case by simp
next
  case (2 c)
  then show ?case by (cases b) auto
next
  case (3 c d cs)
  then show ?case by (cases cs) (auto split: if_splits)
qed

lemma ascii_simps [simp]:
  "ascii []" "ascii (c # s) \<longleftrightarrow> c < 0x80 \<and> ascii s" "ascii (a @ b) \<longleftrightarrow> ascii a \<and> ascii b"
  by (auto simp: ascii_def)

lemma ascii_not_surrogate: "c < 0x80 \<Longrightarrow> \<not> is_high_surrogate c \<and> \<not> is_low_surrogate c"
  by (auto simp: is_high_surrogate_def is_low_surrogate_def word_le_nat_alt word_less_nat_alt)

lemma utf8_unit_ascii: "c < 0x80 \<Longrightarrow> utf8_unit c = [ucast c]"
  by (simp add: utf8_unit_def ascii_not_surrogate utf8_code_point_def word_less_nat_alt)

lemma utf8_Cons_ascii: "c < 0x80 \<Longrightarrow> utf8 (c # s) = ucast c # utf8 s"
  by (cases s) (simp_all add: utf8_unit_ascii ascii_not_surrogate)

lemma utf8_ascii_append: "ascii a \<Longrightarrow> utf8 (a @ b) = map ucast a @ utf8 b"
  by (induction a) (simp_all add: utf8_Cons_ascii)

lemma utf8_ascii: "ascii a \<Longrightarrow> utf8 a = map ucast a"
  using utf8_ascii_append [of a "[]"] by simp

lemma utf8_append_ascii: "ascii b \<Longrightarrow> utf8 (a @ b) = utf8 a @ map ucast b"
proof (cases b)
  case Nil
  then show ?thesis by simp
next
  case (Cons c cs)
  assume "ascii b"
  with Cons have "\<not> is_low_surrogate (hd b)" by (simp add: ascii_not_surrogate)
  then have "utf8 (a @ b) = utf8 a @ utf8 b" by (intro utf8_append) simp
  with \<open>ascii b\<close> show ?thesis by (simp add: utf8_ascii)
qed

lemma utf8_mid: "ascii a \<Longrightarrow> a \<noteq> [] \<Longrightarrow> utf8 (v @ a @ r) = utf8 v @ map ucast a @ utf8 r"
proof -
  assume a: "ascii a" "a \<noteq> []"
  then have "\<not> is_low_surrogate (hd (a @ r))" by (cases a) (simp_all add: ascii_not_surrogate)
  then have "utf8 (v @ a @ r) = utf8 v @ utf8 (a @ r)" by (intro utf8_append) simp
  with a show ?thesis by (simp add: utf8_ascii_append)
qed

lemma unat_of_char: "unat (of_char c :: jschar) = of_char c"
proof -
  have "(of_char c :: nat) < 256" by simp
  then have "(of_char c :: nat) < 65536" by linarith
  then have "(of_char c :: nat) mod 65536 = of_char c" by (rule mod_less)
  then have "unat (of_nat (of_char c) :: jschar) = of_char c" by (simp only: unat_of_nat) simp
  then show ?thesis by (simp only: of_nat_of_char)
qed

lemma ascii_str: "ascii (str s) \<longleftrightarrow> (\<forall>c \<in> set s. of_char c < (128::nat))"
  by (simp add: ascii_def str_def word_less_nat_alt unat_of_char)

lemma digit_ascii: "k < 10 \<Longrightarrow> digit k < 0x80"
  unfolding digit_def word_less_nat_alt unat_of_nat by simp

lemma ascii_show_nat [simp]: "ascii (show_nat n)"
  by (induction n rule: show_nat.induct) (subst show_nat.simps, simp add: digit_ascii)

lemma show_nat_not_Nil [simp]: "show_nat n \<noteq> []"
  by (subst show_nat.simps) simp

lemma length_show_nat: "n < 10 ^ k \<Longrightarrow> 0 < k \<Longrightarrow> length (show_nat n) \<le> k"
proof (induction n arbitrary: k rule: show_nat.induct)
  case (1 n)
  show ?case
  proof (cases "n < 10")
    case True
    then show ?thesis using 1(3) by (subst show_nat.simps) simp
  next
    case False
    then obtain k' where k': "k = Suc k'" "0 < k'" using 1(2,3) by (cases k; cases "k - 1") auto
    with 1(2) have "n div 10 < 10 ^ k'" by (simp add: less_mult_imp_div_less mult.commute)
    with 1(1) [OF False this] k' have "length (show_nat (n div 10)) \<le> k'" by simp
    with False k' show ?thesis by (subst show_nat.simps) simp
  qed
qed

subsection \<open>Escaping\<close>

lemma replace_all_simps [simp]:
  "replace_all c r [] = []"
  "replace_all c r (x # s) = (if x = c then r else [x]) @ replace_all c r s"
  "replace_all c r (a @ b) = replace_all c r a @ replace_all c r b"
  by (simp_all add: replace_all_def)

lemma special_distinct:
  "BACKSLASH \<noteq> LPAREN" "BACKSLASH \<noteq> RPAREN" "LPAREN \<noteq> RPAREN"
  "LPAREN \<noteq> BACKSLASH" "RPAREN \<noteq> BACKSLASH" "RPAREN \<noteq> LPAREN"
  by (simp_all add: BACKSLASH_def LPAREN_def RPAREN_def)

lemma escapeText_Nil [simp]: "escapeText [] = []"
  by (simp add: escapeText_def)

lemma escapeText_Cons: "escapeText (c # s) = escape_unit c @ escapeText s"
  by (simp add: escapeText_def escape_unit_def special_distinct)

lemma escapeText_single_pass: "escapeText s = concat (map escape_unit s)"
  by (induction s) (simp_all add: escapeText_Cons)

lemma unescape_escape: "unescapeText (escapeText s) = s"
proof (induction s)
  case Nil
  show ?case by simp
next
  case (Cons c s)
  show ?case
  proof (cases "c = BACKSLASH \<or> c = LPAREN \<or> c = RPAREN")
    case True
    then show ?thesis using Cons by (auto simp: escapeText_Cons escape_unit_def)
  next
    case False
    then show ?thesis using Cons
      by (cases "escapeText s") (auto simp: escapeText_Cons escape_unit_def)
  qed
qed

subsection \<open>The two loops of the assembly\<close>

lemma append_objects_fst:
  "fst (append_objects pdf offs objs) = pdf @ concat (map (\<lambda>obj. obj @ str ''\<newline>'') objs)"
  by (induction objs arbitrary: pdf offs) simp_all

lemma append_objects_length:
  "length (snd (append_objects pdf offs objs)) = length offs + length objs"
  by (induction objs arbitrary: pdf offs) simp_all

lemma append_objects_old:
  "k < length offs \<Longrightarrow> snd (append_objects pdf offs objs) ! k = offs ! k"
  by (induction objs arbitrary: pdf offs) (simp_all add: nth_append)

lemma append_objects_nth:
  "k < length objs \<Longrightarrow>
   snd (append_objects pdf offs objs) ! (length offs + k) =
   byteLength (pdf @ concat (map (\<lambda>obj. obj @ str ''\<newline>'') (take k objs)))"
proof (induction objs arbitrary: pdf offs k)
  case Nil
  then show ?case by simp
next
  case (Cons obj objs)
  show ?case
  proof (cases k)
    case 0
    then show ?thesis by (simp add: append_objects_old)
  next
    case (Suc j)
    with Cons.prems have "j < length objs" by simp
    from Cons.IH [OF this, of "pdf @ obj @ str ''\<newline>''" "offs @ [byteLength pdf]"] Suc
    show ?thesis by simp
  qed
qed

subsection \<open>The content stream\<close>

lemma join_append:
  "a \<noteq> [] \<Longrightarrow> b \<noteq> [] \<Longrightarrow> join sep (a @ b) = join sep a @ sep @ join sep b"
proof (induction sep a rule: join.induct)
  case (1 sep)
  then show ?case by simp
next
  case (2 sep x)
  then show ?case by (cases b) simp_all
next
  case (3 sep x y ys)
  then show ?case by simp
qed

lemma content_split:
  "contentStream data =
     join (str ''\<newline>'') (take 37 (contentLines data)) @ str ''\<newline>'' @
     join (str ''\<newline>'') (take 6 (drop 37 (contentLines data))) @ str ''\<newline>'' @
     join (str ''\<newline>'') (drop 43 (contentLines data))"
proof -
  let ?L = "contentLines data"
  have len: "length ?L = 100"
    by (simp add: contentLines_def Let_def)
  have 1: "?L = take 37 ?L @ drop 37 ?L" by simp
  have 2: "drop 37 ?L = take 6 (drop 37 ?L) @ drop 43 ?L"
    using append_take_drop_id [of 6 "drop 37 ?L"] by simp
  have ne: "take 37 ?L \<noteq> []" "drop 37 ?L \<noteq> []" "take 6 (drop 37 ?L) \<noteq> []" "drop 43 ?L \<noteq> []"
    using len by auto
  have "join (str ''\<newline>'') ?L = join (str ''\<newline>'') (take 37 ?L @ drop 37 ?L)"
    by simp
  also have "\<dots> = join (str ''\<newline>'') (take 37 ?L) @ str ''\<newline>'' @ join (str ''\<newline>'') (drop 37 ?L)"
    using ne by (rule_tac join_append)
  also have "join (str ''\<newline>'') (drop 37 ?L) = join (str ''\<newline>'') (take 6 (drop 37 ?L) @ drop 43 ?L)"
    using 2 by simp
  also have "\<dots> = join (str ''\<newline>'') (take 6 (drop 37 ?L)) @ str ''\<newline>'' @ join (str ''\<newline>'') (drop 43 ?L)"
    using ne by (rule_tac join_append)
  finally show ?thesis by (simp add: contentStream_def)
qed

lemma show_num_int:
  "show_num (396 - (14 * of_nat n) / 2) =
     (if 7 * n \<le> 396 then show_nat (396 - 7 * n) else str ''-'' @ show_nat (7 * n - 396))"
proof -
  have eq: "(396 - (14 * of_nat n) / 2 :: rat) = of_int (396 - 7 * int n)" by simp
  have fl: "\<lfloor>\<bar>of_int (396 - 7 * int n) :: rat\<bar> * 4\<rfloor> = \<bar>396 - 7 * int n\<bar> * 4"
  proof -
    have "\<bar>of_int (396 - 7 * int n) :: rat\<bar> * 4 = of_int (\<bar>396 - 7 * int n\<bar> * 4)" by simp
    then show ?thesis by (simp only: floor_of_int)
  qed
  have neg: "(of_int (396 - 7 * int n) :: rat) < 0 \<longleftrightarrow> \<not> 7 * n \<le> 396" by (simp only: of_int_less_0_iff) linarith
  show ?thesis
  proof (cases "7 * n \<le> 396")
    case True
    then have "\<bar>396 - 7 * int n\<bar> * 4 = int ((396 - 7 * n) * 4)" by (simp add: of_nat_diff)
    then have "nat (\<bar>396 - 7 * int n\<bar> * 4) = (396 - 7 * n) * 4" by (simp only: nat_int)
    then show ?thesis using True neg unfolding eq show_num_def fl by (simp add: Let_def)
  next
    case False
    then have "\<bar>396 - 7 * int n\<bar> * 4 = int ((7 * n - 396) * 4)" by (simp add: of_nat_diff)
    then have "nat (\<bar>396 - 7 * int n\<bar> * 4) = (7 * n - 396) * 4" by (simp only: nat_int)
    then show ?thesis using False neg unfolding eq show_num_def fl by (simp add: Let_def)
  qed
qed

subsection \<open>The layout of the output\<close>

lemma nl_eq: "str ''\<newline>'' = [0x0A]"
  by (simp add: str_def)

lemma show_nat_8: "show_nat 8 = str ''8''"
  by (simp add: show_nat.simps str_def digit_def)

lemma str_append: "str (a @ b) = str a @ str b"
  by (simp add: str_def)

lemma build_objects_snd: "snd (build_objects s) = 8"
  by (simp add: build_objects_def Let_def)

lemma length_objects: "length (objects data) = 7"
  by (simp add: objects_def build_objects_def Let_def)

lemma upt_1_8: "[1..<8] = [1, 2, 3, 4, 5, 6, 7::nat]"
  by (simp add: upt_rec)

lemma objects_eq: "objects data = map2 numbered_object [1..<8] (object_bodies data)"
proof -
  have n: "Suc (Suc 0) = 2" "Suc 2 = 3" "Suc 3 = 4" "Suc 4 = 5" "Suc 5 = 6" "Suc 6 = 7" "Suc 0 = 1"
    by simp_all
  have "objects data =
    [show_nat 1 @ str '' 0 obj\<newline><< /Type /Catalog /Pages 2 0 R >>\<newline>endobj'',
     show_nat 2 @ str '' 0 obj\<newline><< /Type /Pages /Kids [3 0 R] /Count 1 >>\<newline>endobj'',
     show_nat 3 @ str '' 0 obj\<newline><< /Type /Page /Parent 2 0 R /MediaBox [0 0 '' @
       show_num pageWidth @ str '' '' @ show_num pageHeight @
       str ''] /Contents 4 0 R /Resources << /Font << /F1 5 0 R /F2 6 0 R /F3 7 0 R >> >> >>\<newline>endobj'',
     show_nat 4 @ str '' 0 obj\<newline><< /Length '' @ show_nat (byteLength (contentStream data)) @
       str '' >>\<newline>stream\<newline>'' @ contentStream data @ str ''\<newline>endstream\<newline>endobj'',
     show_nat 5 @
       str '' 0 obj\<newline><< /Type /Font /Subtype /Type1 /BaseFont /Helvetica /Encoding /WinAnsiEncoding >>\<newline>endobj'',
     show_nat 6 @
       str '' 0 obj\<newline><< /Type /Font /Subtype /Type1 /BaseFont /Helvetica-Bold /Encoding /WinAnsiEncoding >>\<newline>endobj'',
     show_nat 7 @
       str '' 0 obj\<newline><< /Type /Font /Subtype /Type1 /BaseFont /Courier /Encoding /WinAnsiEncoding >>\<newline>endobj'']"
    unfolding objects_def build_objects_def Let_def fst_conv byteLength_def
    by (simp only: append_Nil append_Cons One_nat_def [symmetric] n
        one_add_one numeral_plus_one semiring_norm append_assoc)
  also have "\<dots> = map2 numbered_object [1..<8] (object_bodies data)"
    unfolding upt_1_8 object_bodies_def numbered_object_def by (simp add: str_def)
  finally show ?thesis .
qed

lemma length_object_bodies: "length (object_bodies data) = 7"
  by (simp add: object_bodies_def)

lemma objects_nth:
  "k < 7 \<Longrightarrow> objects data ! k = numbered_object (Suc k) (object_bodies data ! k)"
  by (simp add: objects_eq length_object_bodies)

lemma append_xref_concat: "append_xref pdf offs = pdf @ concat (map xref_line offs)"
  by (induction offs arbitrary: pdf) (simp_all add: xref_line_def)

lemma pdf_objects_fst: "fst (pdf_objects data) = text_before data 7"
  by (simp add: pdf_objects_def append_objects_fst text_before_def objects_def [symmetric] length_objects)

lemma length_offsets: "length (offsets data) = 7"
  by (simp add: offsets_def pdf_objects_def append_objects_length objects_def [symmetric] length_objects)

lemma offsets_nth: "k < 7 \<Longrightarrow> offsets data ! k = byteLength (text_before data k)"
  using append_objects_nth [of k "objects data" "str ''%PDF-1.4\<newline>''" "[]"]
  by (simp add: offsets_def pdf_objects_def objects_def [symmetric] length_objects text_before_def)

lemma xrefOffset_eq: "xrefOffset data = byteLength (text_before data 7)"
  by (simp add: xrefOffset_def pdf_objects_fst)

lemma pdf_text_eq: "pdf_text data = text_before data 7 @ xref_section data"
  by (simp add: pdf_text_def Let_def build_objects_snd pdf_objects_fst append_xref_concat
      xref_section_def show_nat_8 str_def)

lemma ucast_of_char: "(ucast (of_char c :: jschar) :: byte) = of_char c"
proof -
  have "(ucast (of_char c :: jschar) :: byte) = of_nat (unat (of_char c :: jschar))" by simp
  also have "\<dots> = of_nat (of_char c)" by (simp only: unat_of_char)
  also have "\<dots> = of_char c" by (simp only: of_nat_of_char)
  finally show ?thesis .
qed

lemma ucast_str: "map ucast (str s) = bytes s"
  by (simp add: str_def bytes_def ucast_of_char)

lemma last_concat_nl:
  "p \<noteq> [] \<Longrightarrow> last p = c \<Longrightarrow> last (p @ concat (map (\<lambda>obj. obj @ [c]) xs)) = c"
  by (induction xs rule: rev_induct) simp_all

lemma text_before_last: "text_before data k \<noteq> [] \<and> last (text_before data k) = 0x0A"
proof -
  have 1: "str ''%PDF-1.4\<newline>'' \<noteq> []" and 2: "last (str ''%PDF-1.4\<newline>'') = 0x0A"
    by (simp_all add: str_def)
  have "last (str ''%PDF-1.4\<newline>'' @ concat (map (\<lambda>obj. obj @ [0x0A]) (take k (objects data)))) = 0x0A"
    using 1 2 by (rule last_concat_nl)
  moreover have "text_before data k \<noteq> []"
    using 1 by (simp add: text_before_def)
  ultimately show ?thesis
    by (simp add: text_before_def nl_eq)
qed

lemma newline_not_high: "\<not> is_high_surrogate 0x0A"
  by (simp add: is_high_surrogate_def)

lemma utf8_text_before_append: "utf8 (text_before data k @ s) = utf8 (text_before data k) @ utf8 s"
proof -
  have "\<not> is_high_surrogate (last (text_before data k))"
    using text_before_last [of data k] newline_not_high by simp
  then show ?thesis by (intro utf8_append) simp
qed

lemma text_before_from: "text_before data 7 = text_before data k @ text_from data k"
proof -
  have "objects data = take k (objects data) @ drop k (objects data)" by simp
  then have "map (\<lambda>obj. obj @ str ''\<newline>'') (objects data) =
      map (\<lambda>obj. obj @ str ''\<newline>'') (take k (objects data)) @ map (\<lambda>obj. obj @ str ''\<newline>'') (drop k (objects data))"
    by (metis map_append)
  then show ?thesis
    by (simp add: text_before_def text_from_def length_objects)
qed

lemma text_from_step:
  "k < 7 \<Longrightarrow> text_from data k =
     numbered_object (Suc k) (object_bodies data ! k) @ str ''\<newline>'' @ text_from data (Suc k)"
  by (simp add: text_from_def length_objects objects_nth [symmetric] Cons_nth_drop_Suc [symmetric])

lemma buffer_split:
  "generateCertificatePDF data =
     utf8 (text_before data k) @ utf8 (text_from data k @ xref_section data)"
  by (simp add: generateCertificatePDF_def pdf_text_eq text_before_from [of data k]
      utf8_text_before_append)

lemma length_utf8_text_before: "k < 7 \<Longrightarrow> length (utf8 (text_before data k)) = offsets data ! k"
  by (simp add: offsets_nth byteLength_def)

lemma drop_at_offset:
  assumes "k < 7"
  shows "drop (offsets data ! k) (generateCertificatePDF data) =
     utf8 (show_nat (Suc k) @ str '' 0 obj\<newline>'') @
     utf8 (object_bodies data ! k @ str ''\<newline>endobj\<newline>'' @ text_from data (Suc k) @ xref_section data)"
proof -
  have a: "ascii (show_nat (Suc k) @ str '' 0 obj\<newline>'')" by (simp add: ascii_str)
  have "drop (offsets data ! k) (generateCertificatePDF data) =
        drop (length (utf8 (text_before data k))) (utf8 (text_before data k) @ utf8 (text_from data k @ xref_section data))"
    using length_utf8_text_before [OF assms, of data] buffer_split [of data k] by simp
  also have "\<dots> = utf8 (text_from data k @ xref_section data)"
    by simp
  also have "text_from data k @ xref_section data =
     (show_nat (Suc k) @ str '' 0 obj\<newline>'') @
      (object_bodies data ! k @ str ''\<newline>endobj\<newline>'' @ text_from data (Suc k) @ xref_section data)"
    unfolding text_from_step [OF assms] numbered_object_def by (simp add: str_def)
  also have "utf8 \<dots> = utf8 (show_nat (Suc k) @ str '' 0 obj\<newline>'') @
     utf8 (object_bodies data ! k @ str ''\<newline>endobj\<newline>'' @ text_from data (Suc k) @ xref_section data)"
    using utf8_ascii_append [OF a] utf8_ascii [OF a] by simp
  finally show ?thesis .
qed

subsection \<open>Decimal numbers in the file\<close>

lemma unat_digit: "k < 10 \<Longrightarrow> unat (digit k) = 48 + k"
  unfolding digit_def by (simp only: unat_of_nat) simp

lemma ucast_digit: "k < 10 \<Longrightarrow> (ucast (digit k) :: byte) = of_nat (48 + k)"
proof -
  assume "k < 10"
  have "(ucast (digit k) :: byte) = of_nat (unat (digit k))" by simp
  with \<open>k < 10\<close> show ?thesis by (simp only: unat_digit)
qed

lemma unat_byte_digit: "k < 10 \<Longrightarrow> unat (of_nat (48 + k) :: byte) = 48 + k"
  by (simp only: unat_of_nat) simp

lemma is_digit_digit: "k < 10 \<Longrightarrow> is_digit (ucast (digit k))"
  by (simp only: ucast_digit is_digit_def word_le_nat_alt unat_byte_digit) simp

lemma digit_value: "k < 10 \<Longrightarrow> unat (ucast (digit k) :: byte) - 48 = k"
  by (simp only: ucast_digit unat_byte_digit add_diff_cancel_left')

lemma digits_show_nat: "list_all is_digit (map ucast (show_nat n))"
  by (induction n rule: show_nat.induct) (subst show_nat.simps, simp add: is_digit_digit)

lemma read_decimal_snoc: "read_decimal (ds @ [b]) = 10 * read_decimal ds + (unat b - 48)"
  by (simp add: read_decimal_def)

lemma read_decimal_show_nat: "read_decimal (map ucast (show_nat n)) = n"
proof (induction n rule: show_nat.induct)
  case (1 n)
  show ?case
  proof (cases "n < 10")
    case True
    then show ?thesis by (subst show_nat.simps) (simp add: read_decimal_def digit_value)
  next
    case False
    with 1 have "read_decimal (map ucast (show_nat (n div 10))) = n div 10" by simp
    with False show ?thesis
      by (subst show_nat.simps) (simp add: read_decimal_snoc digit_value)
  qed
qed

lemma read_decimal_zeros: "read_decimal (replicate m 0x30 @ ds) = read_decimal ds"
  by (induction m) (simp_all add: read_decimal_def)

lemma ucast_digit_0: "(ucast (digit 0) :: byte) = 0x30"
  by (simp add: digit_def)

lemma padded:
  "(map ucast (padStart 10 (digit 0) (show_nat n)) :: buffer) =
     replicate (10 - length (show_nat n)) 0x30 @ map ucast (show_nat n)"
  by (simp add: padStart_def ucast_digit_0)

lemma padded_digits: "list_all is_digit (map ucast (padStart 10 (digit 0) (show_nat n)))"
  using digits_show_nat [of n] by (auto simp add: padded list_all_iff is_digit_def)

lemma padded_value: "read_decimal (map ucast (padStart 10 (digit 0) (show_nat n))) = n"
  by (simp only: padded read_decimal_zeros read_decimal_show_nat)

lemma padded_length: "n < 10 ^ 10 \<Longrightarrow> length (padStart 10 (digit 0) (show_nat n)) = 10"
  using length_show_nat [of n 10] by (simp add: padStart_def)

subsection \<open>The reader on a file of the right shape\<close>

lemma take_drop_prefix: "length a = n \<Longrightarrow> take n (a @ b) = a \<and> drop n (a @ b) = b"
  by simp

lemma read_startxref_shape:
  assumes "list_all is_digit d" "d \<noteq> []"
  shows "read_startxref (pre @ bytes ''startxref\<newline>'' @ d @ bytes ''\<newline>%%EOF'') = Some (read_decimal d)"
proof -
  define e where "e = rev (bytes ''\<newline>%%EOF'')"
  define k where "k = rev (bytes ''startxref\<newline>'')"
  define r where "r = rev (pre @ bytes ''startxref\<newline>'' @ d @ bytes ''\<newline>%%EOF'')"
  have r: "r = e @ rev d @ k @ rev pre"
    by (simp add: r_def e_def k_def)
  have len6: "length e = 6" by (simp add: e_def bytes_def)
  have len10: "length k = 10" by (simp add: k_def bytes_def)
  have t6: "take 6 r = e" and d6: "drop 6 r = rev d @ k @ rev pre"
    unfolding r using len6 by simp_all
  have tw0: "takeWhile is_digit (k @ rev pre) = []"
    by (simp add: k_def bytes_def is_digit_def)
  have "takeWhile is_digit (rev d @ k @ rev pre) = rev d @ takeWhile is_digit (k @ rev pre)"
    using assms(1) by (intro takeWhile_append2) (simp add: list_all_iff)
  then have tw: "takeWhile is_digit (drop 6 r) = rev d"
    unfolding d6 tw0 by simp
  have "drop (6 + length (rev d)) r = drop (length (rev d)) (drop 6 r)"
    by (simp only: drop_drop add.commute)
  also have "\<dots> = k @ rev pre"
    unfolding d6 by simp
  finally have "take 10 (drop (6 + length (rev d)) r) = k"
    using len10 by simp
  then show ?thesis
    unfolding read_startxref_def Let_def r_def [symmetric] tw t6 e_def [symmetric] k_def [symmetric]
    using assms(2) by simp
qed

lemma read_xref_header_shape:
  "read_xref_header (pre @ bytes ''xref\<newline>0 8\<newline>'' @ post) (length pre) = Some (0, 8, length pre + 9)"
  by (simp add: read_xref_header_def bytes_def is_digit_def read_decimal_def Let_def)

lemma read_xref_entry_free:
  "read_xref_entry (pre @ bytes ''0000000000 65535 f \<newline>'' @ post) (length pre) = Some (Free 0 65535)"
  by (simp add: read_xref_entry_def bytes_def is_digit_def read_decimal_def Let_def)

lemma read_xref_entry_in_use:
  assumes "length d = 10" "list_all is_digit d"
  shows "read_xref_entry (pre @ d @ bytes '' 00000 n \<newline>'' @ post) (length pre) =
           Some (InUse (read_decimal d) 0)"
proof -
  define t where "t = bytes '' 00000 n \<newline>''"
  have lt: "length t = 10" by (simp add: t_def bytes_def)
  have e: "take 20 (drop (length pre) (pre @ d @ t @ post)) = d @ t"
    using assms(1) lt by simp
  have 1: "take 10 (d @ t) = d" "length (d @ t) = 20" "take 5 (drop 11 (d @ t)) = take 5 (drop 1 t)"
    "take 1 (drop 10 (d @ t)) = take 1 t" "take 1 (drop 16 (d @ t)) = take 1 (drop 6 t)"
    "drop 18 (d @ t) = drop 8 t" "take 1 (drop 17 (d @ t)) = take 1 (drop 7 t)"
    using assms(1) lt by simp_all
  have 2: "list_all is_digit (take 5 (drop 1 t))" "read_decimal (take 5 (drop 1 t)) = 0"
    "take 1 t = bytes '' ''" "take 1 (drop 6 t) = bytes '' ''" "drop 8 t = bytes '' \<newline>''"
    "take 1 (drop 7 t) = bytes ''n''"
    by (simp_all add: t_def bytes_def is_digit_def read_decimal_def)
  have "read_xref_entry (pre @ d @ t @ post) (length pre) = Some (InUse (read_decimal d) 0)"
    unfolding read_xref_entry_def Let_def e using 1 2 assms(2) by simp
  then show ?thesis unfolding t_def .
qed

lemma length_concat_fixed:
  "\<forall>l \<in> set ls. length l = n \<Longrightarrow> length (concat ls) = n * length ls"
  by (induction ls) simp_all

lemma concat_nth_split:
  assumes "j < length ls"
  shows "concat ls = concat (take j ls) @ ls ! j @ concat (drop (Suc j) ls)"
proof -
  from assms have "ls = take j ls @ ls ! j # drop (Suc j) ls" by (simp add: id_take_nth_drop)
  then have "concat ls = concat (take j ls @ ls ! j # drop (Suc j) ls)" by simp
  then show ?thesis by simp
qed

lemma ascii_replicate: "c < 0x80 \<Longrightarrow> ascii (replicate m c)"
  by (simp add: ascii_def)

lemma ascii_xref_line: "ascii (xref_line offset)"
  by (simp add: xref_line_def padStart_def ascii_replicate digit_ascii ascii_str)

lemma ascii_concat: "\<forall>l \<in> set ls. ascii l \<Longrightarrow> ascii (concat ls)"
  by (induction ls) simp_all

lemma ascii_xref_section: "ascii (xref_section data)"
  by (simp add: xref_section_def ascii_str ascii_concat ascii_xref_line)

lemma ucast_xref_line: "map ucast (xref_line offset) = entry_bytes offset"
  by (simp add: xref_line_def entry_bytes_def ucast_str)

lemma str_split2: "str (a @ b) = str a @ str b"
  by (simp add: str_def)

lemma xref_section_bytes:
  "map ucast (xref_section data) =
     bytes ''xref\<newline>0 8\<newline>'' @ bytes ''0000000000 65535 f \<newline>'' @
     concat (map entry_bytes (offsets data)) @
     bytes ''trailer\<newline><< /Size 8 /Root 1 0 R >>\<newline>'' @
     bytes ''startxref\<newline>'' @ map ucast (show_nat (xrefOffset data)) @ bytes ''\<newline>%%EOF''"
proof -
  have 1: "str ''xref\<newline>0 8\<newline>0000000000 65535 f \<newline>'' =
        str ''xref\<newline>0 8\<newline>'' @ str ''0000000000 65535 f \<newline>''"
    by (simp add: str_def)
  have 2: "str ''trailer\<newline><< /Size 8 /Root 1 0 R >>\<newline>startxref\<newline>'' =
        str ''trailer\<newline><< /Size 8 /Root 1 0 R >>\<newline>'' @ str ''startxref\<newline>''"
    by (simp add: str_def)
  have 3: "map (map ucast) (map xref_line (offsets data)) = map entry_bytes (offsets data)"
    by (simp add: ucast_xref_line)
  show ?thesis
    unfolding xref_section_def 1 2 map_append map_concat ucast_str 3 by simp
qed

lemma text_from_7: "text_from data 7 = []"
  by (simp add: text_from_def length_objects)

lemma buffer_tail:
  "generateCertificatePDF data = utf8 (text_before data 7) @ map ucast (xref_section data)"
  using buffer_split [of data 7] by (simp add: text_from_7 utf8_ascii ascii_xref_section)

lemma xrefOffset_length: "xrefOffset data = length (utf8 (text_before data 7))"
  by (simp add: xrefOffset_eq byteLength_def)

lemma offset_le_length: "k < 7 \<Longrightarrow> offsets data ! k \<le> length (generateCertificatePDF data)"
  using buffer_split [of data k] by (simp add: length_utf8_text_before [symmetric])

lemma xrefOffset_le_length: "xrefOffset data \<le> length (generateCertificatePDF data)"
  using buffer_tail [of data] by (simp add: xrefOffset_length)

lemma entry_bytes_length: "offset < 10 ^ 10 \<Longrightarrow> length (entry_bytes offset) = 20"
  using padded_length [of offset] by (simp add: entry_bytes_def bytes_def)

lemma reads_startxref:
  "read_startxref (generateCertificatePDF data) = Some (xrefOffset data)"
proof -
  define pre where "pre = utf8 (text_before data 7) @
     bytes ''xref\<newline>0 8\<newline>'' @ bytes ''0000000000 65535 f \<newline>'' @
     concat (map entry_bytes (offsets data)) @
     bytes ''trailer\<newline><< /Size 8 /Root 1 0 R >>\<newline>''"
  have shape: "generateCertificatePDF data =
      pre @ bytes ''startxref\<newline>'' @ map ucast (show_nat (xrefOffset data)) @ bytes ''\<newline>%%EOF''"
    unfolding buffer_tail xref_section_bytes pre_def by simp
  have ne: "map ucast (show_nat (xrefOffset data)) \<noteq> ([] :: buffer)" by simp
  show ?thesis
    unfolding shape using read_startxref_shape [OF digits_show_nat ne, of pre]
    by (simp add: read_decimal_show_nat)
qed

lemma reads_xref_header:
  "read_xref_header (generateCertificatePDF data) (xrefOffset data) = Some (0, 8, xrefOffset data + 9)"
  unfolding buffer_tail xref_section_bytes xrefOffset_length
  by (rule read_xref_header_shape)

lemma reads_free_entry:
  "read_xref_entry (generateCertificatePDF data) (xrefOffset data + 9) = Some (Free 0 65535)"
proof -
  have "length (utf8 (text_before data 7) @ bytes ''xref\<newline>0 8\<newline>'') = xrefOffset data + 9"
    by (simp add: xrefOffset_length bytes_def)
  moreover have "generateCertificatePDF data =
     (utf8 (text_before data 7) @ bytes ''xref\<newline>0 8\<newline>'') @ bytes ''0000000000 65535 f \<newline>'' @
      (concat (map entry_bytes (offsets data)) @
     bytes ''trailer\<newline><< /Size 8 /Root 1 0 R >>\<newline>'' @
     bytes ''startxref\<newline>'' @ map ucast (show_nat (xrefOffset data)) @ bytes ''\<newline>%%EOF'')"
    unfolding buffer_tail xref_section_bytes by simp
  ultimately show ?thesis
    using read_xref_entry_free [of "utf8 (text_before data 7) @ bytes ''xref\<newline>0 8\<newline>''"]
    by metis
qed

lemma reads_entry:
  assumes small: "length (generateCertificatePDF data) < 10 ^ 10" and j: "j < 7"
  shows "read_xref_entry (generateCertificatePDF data) (xrefOffset data + 9 + 20 * Suc j) =
           Some (InUse (offsets data ! j) 0)"
proof -
  define ls where "ls = map entry_bytes (offsets data)"
  define tl where "tl = bytes ''trailer\<newline><< /Size 8 /Root 1 0 R >>\<newline>'' @
     bytes ''startxref\<newline>'' @ map ucast (show_nat (xrefOffset data)) @ bytes ''\<newline>%%EOF''"
  define hd where "hd = utf8 (text_before data 7) @ bytes ''xref\<newline>0 8\<newline>'' @ bytes ''0000000000 65535 f \<newline>''"
  define d where "d = (map ucast (padStart 10 (digit 0) (show_nat (offsets data ! j))) :: buffer)"
  have len_ls: "length ls = 7" by (simp add: ls_def length_offsets)
  have all20: "\<forall>l \<in> set ls. length l = 20"
  proof
    fix l assume "l \<in> set ls"
    then obtain k where k: "k < 7" "l = entry_bytes (offsets data ! k)"
      unfolding ls_def by (auto simp: in_set_conv_nth length_offsets)
    with offset_le_length [of k data] small have "offsets data ! k < 10 ^ 10" by simp
    with k show "length l = 20" by (simp add: entry_bytes_length)
  qed
  have "length (take j ls) = j" using j len_ls by simp
  with all20 have len_pre: "length (concat (take j ls)) = 20 * j"
    using length_concat_fixed [of "take j ls" 20] by (auto dest: in_set_takeD)
  have lsj: "ls ! j = d @ bytes '' 00000 n \<newline>''"
    using j by (simp add: ls_def length_offsets entry_bytes_def d_def)
  have buf: "generateCertificatePDF data = hd @ concat ls @ tl"
    unfolding buffer_tail xref_section_bytes hd_def ls_def tl_def by simp
  also have "concat ls = concat (take j ls) @ ls ! j @ concat (drop (Suc j) ls)"
    using j len_ls by (intro concat_nth_split) simp
  finally have shape: "generateCertificatePDF data =
      (hd @ concat (take j ls)) @ d @ bytes '' 00000 n \<newline>'' @ (concat (drop (Suc j) ls) @ tl)"
    by (simp add: lsj)
  have pos: "length (hd @ concat (take j ls)) = xrefOffset data + 9 + 20 * Suc j"
    by (simp add: hd_def len_pre xrefOffset_length bytes_def)
  have "offsets data ! j < 10 ^ 10"
    using offset_le_length [OF j, of data] small by simp
  then have d10: "length d = 10" by (simp add: d_def padded_length)
  have dd: "list_all is_digit d" unfolding d_def by (rule padded_digits)
  have "read_xref_entry (generateCertificatePDF data) (length (hd @ concat (take j ls))) =
      Some (InUse (read_decimal d) 0)"
    unfolding shape by (rule read_xref_entry_in_use [OF d10 dd])
  then show ?thesis
    unfolding pos by (simp add: d_def padded_value)
qed

lemma keyword_at_offset:
  assumes "k < 7"
  shows "bytes_at (generateCertificatePDF data) (offsets data ! k) (object_keyword (Suc k))"
proof -
  have a: "ascii (show_nat (Suc k) @ str '' 0 obj'')" by (simp add: ascii_str)
  have "str '' 0 obj\<newline>'' = str '' 0 obj'' @ str ''\<newline>''" by (simp add: str_def)
  then have "utf8 (show_nat (Suc k) @ str '' 0 obj\<newline>'') =
      object_keyword (Suc k) @ utf8 (str ''\<newline>'')"
    unfolding object_keyword_def using utf8_ascii_append [OF a, of "str ''\<newline>''"] utf8_ascii [OF a]
    by simp
  then show ?thesis
    unfolding bytes_at_def drop_at_offset [OF assms] by simp
qed

lemma show_nat_numeral:
  "show_nat (numeral k) =
     (if numeral k < (10::nat) then [digit (numeral k)]
      else show_nat (numeral k div 10) @ [digit (numeral k mod 10)])"
  by (rule show_nat.simps)

lemma show_nat_small: "show_nat 0 = [digit 0]" "show_nat (Suc 0) = [digit 1]"
  by (simp_all add: show_nat.simps)

lemmas eval_simps = contentStream_def contentLines_def Let_def str_def show_num_def
  escapeText_def replace_all_def BACKSLASH_def LPAREN_def RPAREN_def
  strlen_def centerX_def pageWidth_def pageHeight_def digit_def show_nat_numeral show_nat_small

lemma alice_stream_length: "length (contentStream alice) = 1283"
  by (simp add: eval_simps alice_def)

lemma alice_stream_ascii: "ascii (contentStream alice)"
  by (simp add: eval_simps alice_def)

lemma alice_stream_bytes: "byteLength (contentStream alice) = 1283"
  by (simp add: byteLength_def utf8_ascii alice_stream_ascii alice_stream_length)

lemma ascii_show_num: "ascii (show_num x)"
  by (simp add: show_num_def Let_def ascii_str)

lemma ascii_numbered: "ascii body \<Longrightarrow> ascii (numbered_object n body)"
  by (simp add: numbered_object_def ascii_str)

lemma alice_bodies_ascii: "\<forall>b \<in> set (object_bodies alice). ascii b"
  by (simp add: object_bodies_def ascii_str ascii_show_num alice_stream_ascii)

lemma alice_text_ascii: "ascii (text_before alice k)"
proof -
  have "\<forall>obj \<in> set (objects alice). ascii obj"
    unfolding objects_eq using alice_bodies_ascii
    by (auto simp: ascii_numbered dest!: set_zip_rightD)
  then have "\<forall>obj \<in> set (take k (objects alice)). ascii obj"
    by (auto dest: in_set_takeD)
  then show ?thesis
    by (simp add: text_before_def ascii_str ascii_concat)
qed

lemma alice_text_length: "length (text_before alice 7) = 1890"
  unfolding text_before_def objects_eq upt_1_8
  by (simp add: object_bodies_def numbered_object_def
      alice_stream_bytes alice_stream_length show_num_def Let_def pageWidth_def pageHeight_def
      show_nat_numeral show_nat_small str_def)

lemma alice_xrefOffset: "xrefOffset alice = 1890"
  by (simp add: xrefOffset_length utf8_ascii alice_text_ascii alice_text_length)

lemma list7:
  assumes "length xs = 7"
  shows "xs = [xs ! 0, xs ! 1, xs ! 2, xs ! 3, xs ! 4, xs ! 5, xs ! 6]"
proof -
  have "length xs = Suc (Suc (Suc (Suc (Suc (Suc (Suc 0))))))" using assms by simp
  then obtain a b c d e f g where "xs = [a, b, c, d, e, f, g]"
    by (auto simp: length_Suc_conv)
  then show ?thesis by simp
qed

lemma offsets_list:
  "offsets data = map (\<lambda>k. byteLength (text_before data k)) [0, 1, 2, 3, 4, 5, 6]"
  using list7 [OF length_offsets, of data] by (simp add: offsets_nth)

lemma alice_offsets: "offsets alice = [9, 58, 115, 261, 1596, 1693, 1795]"
  unfolding offsets_list byteLength_def utf8_ascii [OF alice_text_ascii] length_map
  unfolding text_before_def objects_eq upt_1_8
  by (simp add: object_bodies_def numbered_object_def
      alice_stream_bytes alice_stream_length show_num_def Let_def pageWidth_def pageHeight_def
      show_nat_numeral show_nat_small str_def)

lemma alice_length: "length (generateCertificatePDF alice) = 2113"
  unfolding buffer_tail length_append length_map xrefOffset_length [symmetric] alice_xrefOffset
  by (simp add: xref_section_def alice_offsets alice_xrefOffset xref_line_def padStart_def
      show_nat_numeral show_nat_small str_def)

lemma utf8_snoc_newline: "utf8 (s @ str ''\<newline>'') = utf8 s @ [0x0A]"
  using utf8_append_ascii [of "str ''\<newline>''" s] by (simp add: ascii_str) (simp add: str_def)

lemma text_before_Suc:
  "k < 7 \<Longrightarrow> text_before data (Suc k) = text_before data k @ objects data ! k @ str ''\<newline>''"
  by (simp add: text_before_def take_Suc_conv_app_nth length_objects)

lemma offset_step:
  assumes "k < 7"
  shows "byteLength (text_before data k) < byteLength (text_before data (Suc k))"
proof -
  have "utf8 (text_before data (Suc k)) = utf8 (text_before data k) @ utf8 (objects data ! k @ str ''\<newline>'')"
    unfolding text_before_Suc [OF assms] by (rule utf8_text_before_append)
  then show ?thesis
    by (simp add: byteLength_def utf8_snoc_newline)
qed

lemma offset_mono:
  "i < j \<Longrightarrow> j \<le> 7 \<Longrightarrow> byteLength (text_before data i) < byteLength (text_before data j)"
proof (induction j)
  case 0
  then show ?case by simp
next
  case (Suc j)
  then have j: "j < 7" by simp
  show ?case
  proof (cases "i = j")
    case True
    then show ?thesis using offset_step [OF j] by simp
  next
    case False
    with Suc have "byteLength (text_before data i) < byteLength (text_before data j)" by simp
    with offset_step [OF j, of data] show ?thesis by simp
  qed
qed

lemma offsets_increasing: "sorted_wrt (<) (offsets data)"
  unfolding offsets_list by (simp add: offset_mono)

text \<open>
  Claim C1. For every request whose output is shorter than \<open>10^10\<close> bytes (every
  output a JavaScript engine can hold is), a reader that follows \<open>startxref\<close> from
  the end of the buffer finds the cross-reference section; its header announces 8
  entries from object 0; entry 0 is the free entry; and each of the entries 1 to 7 is an
  in-use entry whose ten digits are the recorded offset of that object, at which the
  buffer holds the bytes \<open>i 0 obj\<close>. The \<open>i\<close>-th object pushed carries the number
  \<open>i\<close>, there are seven objects and seven offsets, and the offsets increase strictly.
\<close>

theorem xref_offsets_point_to_objects:
  assumes "length (generateCertificatePDF data) < 10 ^ 10"
  shows "read_startxref (generateCertificatePDF data) = Some (xrefOffset data)
     \<and> read_xref_header (generateCertificatePDF data) (xrefOffset data) = Some (0, 8, xrefOffset data + 9)
     \<and> read_xref_entry (generateCertificatePDF data) (xrefOffset data + 9) = Some (Free 0 65535)
     \<and> (\<forall>i \<in> {1..7}.
           read_xref_entry (generateCertificatePDF data) (xrefOffset data + 9 + 20 * i) =
             Some (InUse (offsets data ! (i - 1)) 0)
           \<and> bytes_at (generateCertificatePDF data) (offsets data ! (i - 1)) (object_keyword i)
           \<and> objects data ! (i - 1) = numbered_object i (object_bodies data ! (i - 1)))
     \<and> length (objects data) = 7
     \<and> length (offsets data) = 7
     \<and> sorted_wrt (<) (offsets data)"
proof -
  have "read_xref_entry (generateCertificatePDF data) (xrefOffset data + 9 + 20 * i) =
             Some (InUse (offsets data ! (i - 1)) 0)
        \<and> bytes_at (generateCertificatePDF data) (offsets data ! (i - 1)) (object_keyword i)
        \<and> objects data ! (i - 1) = numbered_object i (object_bodies data ! (i - 1))"
    if "i \<in> {1..7}" for i
  proof -
    from that obtain j where j: "i = Suc j" "j < 7" by (cases i) auto
    show ?thesis
      unfolding j using reads_entry [OF assms j(2)] keyword_at_offset [OF j(2), of data]
        objects_nth [OF j(2), of data] by simp
  qed
  then show ?thesis
    using reads_startxref [of data] reads_xref_header [of data] reads_free_entry [of data]
      length_objects [of data] length_offsets [of data] offsets_increasing [of data]
    by blast
qed

theorem xref_offsets_point_to_objects_witness:
  "length (generateCertificatePDF alice) < 10 ^ 10
   \<and> read_startxref (generateCertificatePDF alice) = Some 1890
   \<and> read_xref_header (generateCertificatePDF alice) 1890 = Some (0, 8, 1899)
   \<and> read_xref_entry (generateCertificatePDF alice) 1899 = Some (Free 0 65535)
   \<and> (4::nat) \<in> {1..7}
   \<and> read_xref_entry (generateCertificatePDF alice) 1979 = Some (InUse 261 0)
   \<and> bytes_at (generateCertificatePDF alice) 261 (object_keyword 4)"
proof -
  have small: "length (generateCertificatePDF alice) < 10 ^ 10"
    by (simp add: alice_length)
  have four: "(4::nat) \<in> {1..7}" by simp
  from xref_offsets_point_to_objects [OF small]
  have "read_startxref (generateCertificatePDF alice) = Some (xrefOffset alice)"
    and "read_xref_header (generateCertificatePDF alice) (xrefOffset alice) = Some (0, 8, xrefOffset alice + 9)"
    and "read_xref_entry (generateCertificatePDF alice) (xrefOffset alice + 9) = Some (Free 0 65535)"
    and "read_xref_entry (generateCertificatePDF alice) (xrefOffset alice + 9 + 20 * 4) =
             Some (InUse (offsets alice ! (4 - 1)) 0)"
    and "bytes_at (generateCertificatePDF alice) (offsets alice ! (4 - 1)) (object_keyword 4)"
    using four by blast+
  then show ?thesis
    using small four by (simp add: alice_xrefOffset alice_offsets)
qed

lemma show_nat_4: "show_nat 4 = str ''4''"
  by (simp add: show_nat.simps str_def digit_def)

lemma stream_object:
  "objects data ! 3 =
     str ''4 0 obj\<newline><< /Length '' @ show_nat (byteLength (contentStream data)) @
     str '' >>\<newline>stream\<newline>'' @ contentStream data @ str ''\<newline>endstream\<newline>endobj''"
proof -
  have "objects data ! 3 = numbered_object 4 (object_bodies data ! 3)"
    using objects_nth [of 3 data] by simp
  then show ?thesis
    by (simp add: object_bodies_def numbered_object_def show_nat_4) (simp add: str_def)
qed

lemma stream_layout:
  "drop (offsets data ! 3) (generateCertificatePDF data) =
     utf8 (str ''4 0 obj\<newline><< /Length '' @ show_nat (byteLength (contentStream data)) @
           str '' >>\<newline>stream\<newline>'') @
     utf8 (contentStream data) @ bytes ''\<newline>endstream'' @
     utf8 (str ''\<newline>endobj\<newline>'' @ text_from data 4 @ xref_section data)"
proof -
  define L where "L = show_nat (byteLength (contentStream data))"
  define R where "R = text_from data 4 @ xref_section data"
  have a1: "ascii (show_nat 4 @ str '' 0 obj\<newline>'')"
    and a2: "ascii (str ''<< /Length '' @ L @ str '' >>\<newline>stream\<newline>'')"
    and a3: "ascii (str ''\<newline>endstream'')" "str ''\<newline>endstream'' \<noteq> []"
    and a4: "ascii (str ''4 0 obj\<newline><< /Length '' @ L @ str '' >>\<newline>stream\<newline>'')"
    by (simp_all add: ascii_str L_def) (simp add: str_def)
  have "drop (offsets data ! 3) (generateCertificatePDF data) =
      utf8 (show_nat 4 @ str '' 0 obj\<newline>'') @
      utf8 (object_bodies data ! 3 @ str ''\<newline>endobj\<newline>'' @ R)"
    using drop_at_offset [of 3 data] by (simp add: R_def)
  also have "object_bodies data ! 3 @ str ''\<newline>endobj\<newline>'' @ R =
      (str ''<< /Length '' @ L @ str '' >>\<newline>stream\<newline>'') @
      contentStream data @ str ''\<newline>endstream'' @ (str ''\<newline>endobj\<newline>'' @ R)"
    by (simp add: object_bodies_def L_def)
  also have "utf8 \<dots> = map ucast (str ''<< /Length '' @ L @ str '' >>\<newline>stream\<newline>'') @
      utf8 (contentStream data @ str ''\<newline>endstream'' @ (str ''\<newline>endobj\<newline>'' @ R))"
    by (rule utf8_ascii_append [OF a2])
  also have "utf8 (contentStream data @ str ''\<newline>endstream'' @ (str ''\<newline>endobj\<newline>'' @ R)) =
      utf8 (contentStream data) @ map ucast (str ''\<newline>endstream'') @ utf8 (str ''\<newline>endobj\<newline>'' @ R)"
    by (rule utf8_mid [OF a3])
  finally have "drop (offsets data ! 3) (generateCertificatePDF data) =
      (map ucast (show_nat 4 @ str '' 0 obj\<newline>'') @
       map ucast (str ''<< /Length '' @ L @ str '' >>\<newline>stream\<newline>'')) @
      utf8 (contentStream data) @ bytes ''\<newline>endstream'' @ utf8 (str ''\<newline>endobj\<newline>'' @ R)"
    by (simp add: utf8_ascii [OF a1] ucast_str)
  also have "map ucast (show_nat 4 @ str '' 0 obj\<newline>'') @
       map ucast (str ''<< /Length '' @ L @ str '' >>\<newline>stream\<newline>'') =
       utf8 (str ''4 0 obj\<newline><< /Length '' @ L @ str '' >>\<newline>stream\<newline>'')"
    unfolding utf8_ascii [OF a4] show_nat_4 by (simp add: str_def)
  finally show ?thesis unfolding L_def R_def .
qed

text \<open>
  Claim C2. The number written after \<open>/Length\<close> in object 4 is the number of bytes of
  the stream in the output: the object begins, at its recorded offset, with
  \<open>4 0 obj\<close>, the dictionary with that number and the keyword \<open>stream\<close>; exactly
  that many bytes later the buffer holds the end of line and \<open>endstream\<close>; and the
  bytes in between are the UTF-8 encoding of the content stream. The number is the
  length of the encoding, not of the string, for every input.
\<close>

theorem stream_length_exact:
  "bytes_at (generateCertificatePDF data) (offsets data ! 3)
     (utf8 (str ''4 0 obj\<newline><< /Length '' @ show_nat (byteLength (contentStream data)) @
            str '' >>\<newline>stream\<newline>''))
   \<and> take (byteLength (contentStream data))
        (drop (offsets data ! 3 +
               length (utf8 (str ''4 0 obj\<newline><< /Length '' @
                             show_nat (byteLength (contentStream data)) @ str '' >>\<newline>stream\<newline>'')))
           (generateCertificatePDF data)) = utf8 (contentStream data)
   \<and> bytes_at (generateCertificatePDF data)
        (offsets data ! 3 +
         length (utf8 (str ''4 0 obj\<newline><< /Length '' @
                       show_nat (byteLength (contentStream data)) @ str '' >>\<newline>stream\<newline>'')) +
         byteLength (contentStream data))
        (bytes ''\<newline>endstream'')
   \<and> byteLength (contentStream data) = length (utf8 (contentStream data))"
proof -
  define h where "h = utf8 (str ''4 0 obj\<newline><< /Length '' @ show_nat (byteLength (contentStream data)) @
            str '' >>\<newline>stream\<newline>'')"
  define c where "c = utf8 (contentStream data)"
  define e where "e = bytes ''\<newline>endstream''"
  define r where "r = utf8 (str ''\<newline>endobj\<newline>'' @ text_from data 4 @ xref_section data)"
  define buf where "buf = generateCertificatePDF data"
  define off where "off = offsets data ! 3"
  have lay: "drop off buf = h @ c @ e @ r"
    unfolding h_def c_def e_def r_def buf_def off_def by (rule stream_layout)
  have 1: "take (length h) (drop off buf) = h"
    unfolding lay by simp
  have "drop (off + length h) buf = drop (length h) (drop off buf)"
    by (simp only: drop_drop add.commute)
  then have d2: "drop (off + length h) buf = c @ e @ r"
    unfolding lay by simp
  then have 2: "take (length c) (drop (off + length h) buf) = c"
    by simp
  have "drop (off + length h + length c) buf = drop (length c) (drop (off + length h) buf)"
    by (simp only: drop_drop add.commute)
  then have "drop (off + length h + length c) buf = e @ r"
    unfolding d2 by simp
  then have 3: "take (length e) (drop (off + length h + length c) buf) = e"
    by simp
  show ?thesis
    using 1 2 3
    unfolding bytes_at_def h_def c_def e_def buf_def off_def byteLength_def
    by simp
qed

lemma text_before_0: "text_before data 0 = str ''%PDF-1.4\<newline>''"
  by (simp add: text_before_def)

lemma head_bytes: "utf8 (text_before data 7) = bytes ''%PDF-1.4\<newline>'' @ utf8 (text_from data 0)"
proof -
  have "utf8 (text_before data 7) = utf8 (text_before data 0) @ utf8 (text_from data 0)"
    unfolding text_before_from [of data 0] by (rule utf8_text_before_append)
  then show ?thesis
    by (simp add: text_before_0 utf8_ascii ascii_str ucast_str)
qed

lemma entry_bytes_shape:
  "entry_bytes offset =
     replicate (10 - length (show_nat offset)) 0x30 @ utf8 (show_nat offset) @ bytes '' 00000 n \<newline>''"
  by (simp add: entry_bytes_def padded utf8_ascii)

lemma font_object:
  "objects data ! 6 = numbered_object 7
     (str ''<< /Type /Font /Subtype /Type1 /BaseFont /Courier /Encoding /WinAnsiEncoding >>'')"
  using objects_nth [of 6 data] by (simp add: object_bodies_def)

text \<open>
  Claim C3. For every request whose output is shorter than \<open>10^10\<close> bytes, the buffer
  is the header line \<open>%PDF-1.4\<close>, the objects each followed by a newline (the last
  one is object 7), the keyword \<open>xref\<close>, the line \<open>0 8\<close>, the free entry for
  object 0, one line per recorded offset, the trailer with \<open>/Size 8\<close> and
  \<open>/Root 1 0 R\<close>, \<open>startxref\<close>, the offset at which \<open>xref\<close> begins, and
  \<open>%%EOF\<close> as the last bytes. Each of the seven lines is 20 bytes: the offset padded
  with zeros to ten digits, then \<open> 00000 n \<close> and a newline.
\<close>

theorem file_layout:
  assumes "length (generateCertificatePDF data) < 10 ^ 10"
  shows "generateCertificatePDF data =
       bytes ''%PDF-1.4\<newline>'' @ utf8 (text_from data 0) @
       bytes ''xref\<newline>'' @ bytes ''0 8\<newline>'' @ bytes ''0000000000 65535 f \<newline>'' @
       concat (map entry_bytes (offsets data)) @
       bytes ''trailer\<newline><< /Size 8 /Root 1 0 R >>\<newline>startxref\<newline>'' @
       utf8 (show_nat (xrefOffset data)) @ bytes ''\<newline>%%EOF''
     \<and> xrefOffset data = length (bytes ''%PDF-1.4\<newline>'' @ utf8 (text_from data 0))
     \<and> length (offsets data) = 7
     \<and> (\<forall>offset \<in> set (offsets data).
           length (entry_bytes offset) = 20 \<and>
           entry_bytes offset =
             replicate (10 - length (show_nat offset)) 0x30 @ utf8 (show_nat offset) @
             bytes '' 00000 n \<newline>'')
     \<and> text_from data 0 = concat (map (\<lambda>obj. obj @ str ''\<newline>'') (objects data))
     \<and> objects data ! 6 = numbered_object 7
           (str ''<< /Type /Font /Subtype /Type1 /BaseFont /Courier /Encoding /WinAnsiEncoding >>'')"
proof -
  have 1: "generateCertificatePDF data =
       bytes ''%PDF-1.4\<newline>'' @ utf8 (text_from data 0) @
       bytes ''xref\<newline>'' @ bytes ''0 8\<newline>'' @ bytes ''0000000000 65535 f \<newline>'' @
       concat (map entry_bytes (offsets data)) @
       bytes ''trailer\<newline><< /Size 8 /Root 1 0 R >>\<newline>startxref\<newline>'' @
       utf8 (show_nat (xrefOffset data)) @ bytes ''\<newline>%%EOF''"
    unfolding buffer_tail xref_section_bytes head_bytes
    by (simp add: utf8_ascii) (simp add: bytes_def)
  have 2: "xrefOffset data = length (bytes ''%PDF-1.4\<newline>'' @ utf8 (text_from data 0))"
    unfolding xrefOffset_length head_bytes ..
  have 3: "length (entry_bytes offset) = 20" if "offset \<in> set (offsets data)" for offset
  proof -
    from that obtain k where "k < 7" "offset = offsets data ! k"
      by (auto simp: in_set_conv_nth length_offsets)
    with offset_le_length [of k data] assms have "offset < 10 ^ 10" by simp
    then show ?thesis by (rule entry_bytes_length)
  qed
  have 4: "text_from data 0 = concat (map (\<lambda>obj. obj @ str ''\<newline>'') (objects data))"
    by (simp add: text_from_def)
  show ?thesis
    using 1 2 3 4 length_offsets [of data] entry_bytes_shape font_object [of data] by blast
qed

theorem file_layout_witness:
  "length (generateCertificatePDF alice) < 10 ^ 10
   \<and> generateCertificatePDF alice =
       bytes ''%PDF-1.4\<newline>'' @ utf8 (text_from alice 0) @
       bytes ''xref\<newline>'' @ bytes ''0 8\<newline>'' @ bytes ''0000000000 65535 f \<newline>'' @
       concat (map entry_bytes [9, 58, 115, 261, 1596, 1693, 1795]) @
       bytes ''trailer\<newline><< /Size 8 /Root 1 0 R >>\<newline>startxref\<newline>'' @
       utf8 (show_nat 1890) @ bytes ''\<newline>%%EOF''
   \<and> (261::nat) \<in> set (offsets alice)
   \<and> length (entry_bytes 261) = 20
   \<and> entry_bytes 261 = bytes ''0000000261 00000 n \<newline>''"
proof -
  have small: "length (generateCertificatePDF alice) < 10 ^ 10"
    by (simp add: alice_length)
  have mem: "(261::nat) \<in> set (offsets alice)"
    by (simp add: alice_offsets)
  have sh: "show_nat 261 = str ''261''"
    by (simp add: show_nat_numeral str_def digit_def)
  from file_layout [OF small] mem
  have lay: "generateCertificatePDF alice =
       bytes ''%PDF-1.4\<newline>'' @ utf8 (text_from alice 0) @
       bytes ''xref\<newline>'' @ bytes ''0 8\<newline>'' @ bytes ''0000000000 65535 f \<newline>'' @
       concat (map entry_bytes (offsets alice)) @
       bytes ''trailer\<newline><< /Size 8 /Root 1 0 R >>\<newline>startxref\<newline>'' @
       utf8 (show_nat (xrefOffset alice)) @ bytes ''\<newline>%%EOF''"
    and len: "length (entry_bytes 261) = 20"
    and shape: "entry_bytes 261 =
             replicate (10 - length (show_nat 261)) 0x30 @ utf8 (show_nat 261) @
             bytes '' 00000 n \<newline>''"
    by blast+
  have "replicate (10 - length (show_nat 261)) 0x30 @ utf8 (show_nat 261) @
             bytes '' 00000 n \<newline>'' = bytes ''0000000261 00000 n \<newline>''"
    unfolding sh by (simp add: utf8_ascii ascii_str ucast_str)
      (simp add: bytes_def str_def numeral_eq_Suc)
  with shape have val: "entry_bytes 261 = bytes ''0000000261 00000 n \<newline>''"
    by (rule trans)
  from lay small mem len val show ?thesis
    unfolding alice_offsets alice_xrefOffset by blast
qed

lemma stream_object_bytes:
  "utf8 (objects data ! 3) =
     utf8 (str ''4 0 obj\<newline><< /Length '' @ show_nat (byteLength (contentStream data)) @
           str '' >>\<newline>stream\<newline>'') @
     utf8 (contentStream data) @ bytes ''\<newline>endstream\<newline>endobj''"
proof -
  define h where "h = str ''4 0 obj\<newline><< /Length '' @ show_nat (byteLength (contentStream data)) @
           str '' >>\<newline>stream\<newline>''"
  have a: "ascii h" by (simp add: h_def ascii_str)
  have b: "ascii (str ''\<newline>endstream\<newline>endobj'')" by (simp add: ascii_str)
  have 1: "objects data ! 3 = h @ contentStream data @ str ''\<newline>endstream\<newline>endobj''"
    by (simp add: stream_object h_def)
  have 2: "utf8 (h @ contentStream data @ str ''\<newline>endstream\<newline>endobj'') =
      utf8 h @ utf8 (contentStream data @ str ''\<newline>endstream\<newline>endobj'')"
    using utf8_ascii_append [OF a] utf8_ascii [OF a] by simp
  have 3: "utf8 (contentStream data @ str ''\<newline>endstream\<newline>endobj'') =
      utf8 (contentStream data) @ bytes ''\<newline>endstream\<newline>endobj''"
    using utf8_append_ascii [OF b] by (simp only: ucast_str)
  have "utf8 (objects data ! 3) =
      utf8 h @ utf8 (contentStream data) @ bytes ''\<newline>endstream\<newline>endobj''"
    unfolding 1 2 3 ..
  then show ?thesis unfolding h_def .
qed

lemma xref_at_offset: "bytes_at (generateCertificatePDF data) (xrefOffset data) (bytes ''xref\<newline>'')"
proof -
  have "drop (xrefOffset data) (generateCertificatePDF data) = map ucast (xref_section data)"
    unfolding buffer_tail xrefOffset_length by simp
  then show ?thesis
    unfolding bytes_at_def xref_section_bytes by (simp add: bytes_def)
qed

lemma multi_byte_examples:
  "byteLength [0x41] = 1" "byteLength [0xE9] = 2" "byteLength [0x20AC] = 3"
  "byteLength [0xD83D, 0xDE00] = 4" "byteLength [0xD83D] = 3"
  by (simp_all add: byteLength_def utf8_unit_def utf8_code_point_def
      is_high_surrogate_def is_low_surrogate_def)

text \<open>
  Claim C10. Every recorded offset is the UTF-8 byte length of the text held when the
  object is appended, \<open>startxref\<close> is the byte length of the text before the
  cross-reference section, and \<open>/Length\<close> is the byte length of the content stream.
  The buffer is the UTF-8 encoding of the whole text, and encoding the whole text gives
  the encoding of the text before an object followed by the encoding of the rest, for
  every input, whatever code units the four fields contain (lone surrogates included).
  So each offset is where the bytes \<open>k 0 obj\<close> stand, \<open>startxref\<close> is where
  \<open>xref\<close> stands, and the stream object is its dictionary, the encoded stream and
  \<open>endstream\<close>. A code unit can take one, two or three bytes and a surrogate pair
  takes four.
\<close>

theorem offsets_are_utf8_byte_lengths:
  "offsets data = map (\<lambda>k. byteLength (text_before data k)) [0, 1, 2, 3, 4, 5, 6]
   \<and> xrefOffset data = byteLength (text_before data 7)
   \<and> pdf_text data = text_before data k @ text_from data k @ xref_section data
   \<and> generateCertificatePDF data = utf8 (pdf_text data)
   \<and> utf8 (pdf_text data) = utf8 (text_before data k) @ utf8 (text_from data k @ xref_section data)
   \<and> list_all (\<lambda>k. bytes_at (generateCertificatePDF data) (offsets data ! k) (object_keyword (Suc k)))
        [0, 1, 2, 3, 4, 5, 6]
   \<and> bytes_at (generateCertificatePDF data) (xrefOffset data) (bytes ''xref\<newline>'')
   \<and> utf8 (objects data ! 3) =
       utf8 (str ''4 0 obj\<newline><< /Length '' @ show_nat (byteLength (contentStream data)) @
             str '' >>\<newline>stream\<newline>'') @
       utf8 (contentStream data) @ bytes ''\<newline>endstream\<newline>endobj''
   \<and> byteLength [0xE9] = 2 \<and> byteLength [0x20AC] = 3
   \<and> byteLength [0xD83D, 0xDE00] = 4 \<and> byteLength [0xD83D] = 3"
proof -
  have 1: "pdf_text data = text_before data k @ text_from data k @ xref_section data"
    by (simp add: pdf_text_eq text_before_from [of data k])
  have 2: "utf8 (pdf_text data) = utf8 (text_before data k) @ utf8 (text_from data k @ xref_section data)"
    using buffer_split [of data k] by (simp add: generateCertificatePDF_def)
  have 3: "list_all (\<lambda>k. bytes_at (generateCertificatePDF data) (offsets data ! k) (object_keyword (Suc k)))
        [0, 1, 2, 3, 4, 5, 6]"
    using keyword_at_offset [of 0 data] keyword_at_offset [of 1 data] keyword_at_offset [of 2 data]
      keyword_at_offset [of 3 data] keyword_at_offset [of 4 data] keyword_at_offset [of 5 data]
      keyword_at_offset [of 6 data]
    by simp
  show ?thesis
    by (intro conjI offsets_list xrefOffset_eq 1 generateCertificatePDF_def 2 3 xref_at_offset
        stream_object_bytes multi_byte_examples)
qed

subsection \<open>The request handler\<close>

lemma bind_simps [simp]: "bind (Inl e) f = Inl e" "bind (Inr x) f = f x"
  by (simp_all add: bind_def)

lemma bind_eq_Inr: "bind m f = Inr y \<longleftrightarrow> (\<exists>x. m = Inr x \<and> f x = Inr y)"
  by (cases m) simp_all

lemma bind_eq_Inl: "bind m f = Inl e \<longleftrightarrow> m = Inl e \<or> (\<exists>x. m = Inr x \<and> f x = Inl e)"
  by (cases m) simp_all

lemma generate_all_entries:
  "generate_all clk k ps acc = Inr certs \<Longrightarrow>
     \<exists>cs. certs = acc @ cs \<and> length cs = length ps \<and>
          (\<forall>i<length ps. certificate_for clk (k + i) (ps ! i) = Inr (cs ! i))"
proof (induction ps arbitrary: k acc)
  case Nil
  then show ?case by simp
next
  case (Cons p ps)
  from Cons.prems obtain c where c: "certificate_for clk k p = Inr c"
    and rest: "generate_all clk (Suc k) ps (acc @ [c]) = Inr certs"
    by (auto simp: bind_eq_Inr)
  from Cons.IH [OF rest] obtain cs where cs: "certs = (acc @ [c]) @ cs" "length cs = length ps"
    "\<forall>i<length ps. certificate_for clk (Suc k + i) (ps ! i) = Inr (cs ! i)"
    by blast
  have "\<forall>i<length (p # ps). certificate_for clk (k + i) ((p # ps) ! i) = Inr ((c # cs) ! i)"
  proof (intro allI impI)
    fix i assume "i < length (p # ps)"
    then show "certificate_for clk (k + i) ((p # ps) ! i) = Inr ((c # cs) ! i)"
      using c cs(3) by (cases i) simp_all
  qed
  with cs(1,2) show ?case
    by (intro exI [of _ "c # cs"]) simp
qed

lemma get_not_null: "v \<noteq> Null \<Longrightarrow> v \<noteq> Undefined \<Longrightarrow> \<exists>w. get v key = Inr w"
  by (cases v) simp_all

lemma certificate_for_filename:
  assumes "certificate_for clk k p = Inr c"
  shows "\<exists>v. get p ''name'' = Inr v \<and>
             filename c = str ''Certificate_'' @ sanitize (name_for_file v) @ str ''.pdf''"
proof -
  from assms obtain v pdf s where v: "get p ''name'' = Inr v"
    and s: "replace_non_alnum (or_else v (Str (str ''certificate''))) = Inr s"
    and f: "filename c = str ''Certificate_'' @ s @ str ''.pdf''"
    unfolding certificate_for_def by (auto simp: bind_eq_Inr)
  have "s = sanitize (name_for_file v)"
    using s by (cases v) (auto simp: replace_non_alnum_def or_else_def name_for_file_def split: if_splits)
  with v f show ?thesis by simp
qed

lemma generate_all_length:
  "generate_all clk k ps acc = Inr certs \<Longrightarrow> length certs = length acc + length ps"
  using generate_all_entries [of clk k ps acc certs] by auto

lemma bad_request:
  assumes "body \<noteq> Null" "body \<noteq> Undefined"
    and "\<not> (\<exists>ps. get body ''participants'' = Inr (Arr ps) \<and> ps \<noteq> [])"
  shows "POST clk (Some body) =
           \<lparr>status = 400, json = Failed (Literal (str ''participants array is required''))\<rparr>"
proof -
  from assms(1,2) obtain v where v: "get body ''participants'' = Inr v"
    using get_not_null by blast
  with assms(3) have "\<forall>ps. v = Arr ps \<longrightarrow> ps = []" by auto
  then show ?thesis
    unfolding POST_def try_block_def using v by (cases v) auto
qed

lemma failed_batch:
  assumes "get body ''participants'' = Inr (Arr ps)" "ps \<noteq> []"
    and "generate_all clk 0 ps [] = Inl e"
  shows "POST clk (Some body) =
           \<lparr>status = 500, json = Failed (if e \<noteq> NotAnError then MessageOf e
                                          else Literal (str ''PDF generation failed''))\<rparr>"
  unfolding POST_def try_block_def using assms by simp

lemma successful_batch:
  assumes "get body ''participants'' = Inr (Arr ps)" "ps \<noteq> []"
    and "generate_all clk 0 ps [] = Inr certs"
  shows "POST clk (Some body) = \<lparr>status = 200, json = Succeeded (length ps) certs\<rparr>"
    and "length certs = length ps"
  unfolding POST_def try_block_def using assms generate_all_length [OF assms(3)] by simp_all

lemma to_string_not_NotAnError:
  "to_string f v \<noteq> Inl NotAnError" "to_strings f vs \<noteq> Inl NotAnError"
  by (induction f v and f vs rule: to_string_to_strings.induct) (auto simp: bind_eq_Inl)

lemma get_not_NotAnError: "get v key \<noteq> Inl NotAnError"
  by (cases v) simp_all

lemma encoder_not_NotAnError: "generateCertificatePDF_js f n c d i \<noteq> Inl NotAnError"
  unfolding generateCertificatePDF_js_def
  by (auto simp: bind_eq_Inl to_string_not_NotAnError split: jsval.splits)

lemma certificate_for_not_NotAnError: "certificate_for clk k p \<noteq> Inl NotAnError"
  unfolding certificate_for_def
  by (auto simp: bind_eq_Inl get_not_NotAnError encoder_not_NotAnError replace_non_alnum_def
      split: jsval.splits)

lemma generate_all_not_NotAnError: "generate_all clk k ps acc \<noteq> Inl NotAnError"
  by (induction ps arbitrary: k acc) (auto simp: bind_eq_Inl certificate_for_not_NotAnError)

text \<open>
  Claim C8, as amended. A request whose body is a JSON value other than \<open>null\<close> and
  has no participants array, or an empty one, is answered with status 400,
  \<open>success: false\<close> and the text \<open>participants array is required\<close>. When the body
  has a non-empty participants array and generating a certificate throws, the response
  is status 500 with \<open>success: false\<close> and the message of the exception, and it holds
  no certificate. When no certificate throws, the response is status 200 with one
  certificate per participant and \<open>total\<close> their number.
\<close>

theorem request_classification:
  "(body \<noteq> Null \<longrightarrow> body \<noteq> Undefined \<longrightarrow>
      \<not> (\<exists>ps. get body ''participants'' = Inr (Arr ps) \<and> ps \<noteq> []) \<longrightarrow>
      POST clk (Some body) =
        \<lparr>status = 400, json = Failed (Literal (str ''participants array is required''))\<rparr>)
   \<and> (get body ''participants'' = Inr (Arr ps) \<longrightarrow> ps \<noteq> [] \<longrightarrow>
        generate_all clk 0 ps [] = Inl e \<longrightarrow>
        POST clk (Some body) = \<lparr>status = 500, json = Failed (MessageOf e)\<rparr>)
   \<and> (get body ''participants'' = Inr (Arr ps) \<longrightarrow> ps \<noteq> [] \<longrightarrow>
        generate_all clk 0 ps [] = Inr certs \<longrightarrow>
        POST clk (Some body) = \<lparr>status = 200, json = Succeeded (length ps) certs\<rparr>
        \<and> length certs = length ps)"
proof (intro conjI impI)
  assume "body \<noteq> Null" "body \<noteq> Undefined"
    "\<not> (\<exists>ps. get body ''participants'' = Inr (Arr ps) \<and> ps \<noteq> [])"
  then show "POST clk (Some body) =
        \<lparr>status = 400, json = Failed (Literal (str ''participants array is required''))\<rparr>"
    by (rule bad_request)
next
  assume a: "get body ''participants'' = Inr (Arr ps)" "ps \<noteq> []" "generate_all clk 0 ps [] = Inl e"
  then have "e \<noteq> NotAnError" using generate_all_not_NotAnError by metis
  with failed_batch [OF a] show "POST clk (Some body) = \<lparr>status = 500, json = Failed (MessageOf e)\<rparr>"
    by simp
next
  assume a: "get body ''participants'' = Inr (Arr ps)" "ps \<noteq> []" "generate_all clk 0 ps [] = Inr certs"
  then show "POST clk (Some body) = \<lparr>status = 200, json = Succeeded (length ps) certs\<rparr>"
    by (rule successful_batch(1))
  from a show "length certs = length ps"
    by (rule successful_batch(2))
qed

lemma str_eq_iff: "str a = str b \<longleftrightarrow> a = b"
proof -
  have "inj (of_char :: char \<Rightarrow> jschar)"
  proof (rule injI)
    fix x y :: char
    assume "(of_char x :: jschar) = of_char y"
    then have "unat (of_char x :: jschar) = unat (of_char y :: jschar)" by simp
    then have "(of_char x :: nat) = of_char y" by (simp only: unat_of_char)
    then show "x = y" by simp
  qed
  then show ?thesis by (simp add: str_def inj_map_eq_map)
qed

lemma str_Nil_iff: "str s = [] \<longleftrightarrow> s = []"
  by (simp add: str_def)

lemma alice_run: "certificate_for clock0 k alice_participant = Inr alice_certificate"
proof -
  have s: "sanitize (str ''Alice Johnson'') = str ''Alice_Johnson''"
    by (simp add: sanitize_def is_alnum_def str_def)
  have f: "str ''Certificate_'' @ str ''Alice_Johnson'' @ str ''.pdf'' = str ''Certificate_Alice_Johnson.pdf''"
    by (simp add: str_def)
  show ?thesis
    unfolding certificate_for_def alice_participant_def alice_certificate_def alice_def
    by (simp add: str_eq_iff str_Nil_iff or_else_def generateCertificatePDF_js_def replace_non_alnum_def s f)
qed

lemma alice_batch: "generate_all clock0 0 [alice_participant] [] = Inr [alice_certificate]"
  by (simp add: alice_run)

lemma number_name_run: "certificate_for clk k (Obj [(str ''name'', Num 42)]) = Inl TypeError"
  unfolding certificate_for_def
  by (simp add: str_eq_iff or_else_def generateCertificatePDF_js_def)

lemma get_batch: "get (batch ps) ''participants'' = Inr (Arr ps)"
  by (simp add: batch_def)

theorem request_classification_witness:
  "Obj [] \<noteq> Null \<and> Obj [] \<noteq> Undefined
   \<and> \<not> (\<exists>ps. get (Obj []) ''participants'' = Inr (Arr ps) \<and> ps \<noteq> [])
   \<and> POST clock0 (Some (Obj [])) =
       \<lparr>status = 400, json = Failed (Literal (str ''participants array is required''))\<rparr>
   \<and> get (batch [Obj [(str ''name'', Num 42)]]) ''participants'' = Inr (Arr [Obj [(str ''name'', Num 42)]])
   \<and> [Obj [(str ''name'', Num 42)]] \<noteq> []
   \<and> generate_all clock0 0 [Obj [(str ''name'', Num 42)]] [] = Inl TypeError
   \<and> POST clock0 (Some (batch [Obj [(str ''name'', Num 42)]])) =
       \<lparr>status = 500, json = Failed (MessageOf TypeError)\<rparr>
   \<and> get (batch [alice_participant]) ''participants'' = Inr (Arr [alice_participant])
   \<and> [alice_participant] \<noteq> []
   \<and> generate_all clock0 0 [alice_participant] [] = Inr [alice_certificate]
   \<and> POST clock0 (Some (batch [alice_participant])) =
       \<lparr>status = 200, json = Succeeded (length [alice_participant]) [alice_certificate]\<rparr>
   \<and> length [alice_certificate] = length [alice_participant]"
proof -
  have 1: "Obj [] \<noteq> Null" "Obj [] \<noteq> Undefined"
    "\<not> (\<exists>ps. get (Obj []) ''participants'' = Inr (Arr ps) \<and> ps \<noteq> [])"
    by simp_all
  have 2: "get (batch [Obj [(str ''name'', Num 42)]]) ''participants'' = Inr (Arr [Obj [(str ''name'', Num 42)]])"
    "[Obj [(str ''name'', Num 42)]] \<noteq> []"
    "generate_all clock0 0 [Obj [(str ''name'', Num 42)]] [] = Inl TypeError"
    by (simp_all add: get_batch number_name_run)
  have 3: "get (batch [alice_participant]) ''participants'' = Inr (Arr [alice_participant])"
    "[alice_participant] \<noteq> []"
    "generate_all clock0 0 [alice_participant] [] = Inr [alice_certificate]"
    by (simp_all add: get_batch alice_run)
  show ?thesis
    using 1 2 3
      request_classification [where body = "Obj []" and clk = clock0]
      request_classification [where body = "batch [Obj [(str ''name'', Num 42)]]" and clk = clock0
        and ps = "[Obj [(str ''name'', Num 42)]]" and e = TypeError]
      request_classification [where body = "batch [alice_participant]" and clk = clock0
        and ps = "[alice_participant]" and certs = "[alice_certificate]"]
    by blast
qed

text \<open>
  The claim as stated fails where the body is \<open>null\<close>: it has no participants array,
  reading \<open>participants\<close> from it throws, and the response is status 500, not 400.
  And the text of a 500 response is the exception's own message, here for a participant
  whose name is the number 42, not the literal \<open>PDF generation failed\<close>.
\<close>

theorem request_classification_counterexample:
  "\<not> has_participants_array Null
   \<and> POST clock0 (Some Null) = \<lparr>status = 500, json = Failed (MessageOf TypeError)\<rparr>
   \<and> status (POST clock0 (Some Null)) \<noteq> 400
   \<and> POST clock0 (Some (batch [Obj [(str ''name'', Num 42)]])) =
       \<lparr>status = 500, json = Failed (MessageOf TypeError)\<rparr>
   \<and> MessageOf TypeError \<noteq> Literal (str ''PDF generation failed'')"
  by (simp add: has_participants_array_def POST_def try_block_def get_batch number_name_run)

lemma successful_response:
  assumes "get body ''participants'' = Inr (Arr ps)" "ps \<noteq> []"
    and "POST clk (Some body) = \<lparr>status = 200, json = Succeeded n certs\<rparr>"
  shows "generate_all clk 0 ps [] = Inr certs"
proof (cases "generate_all clk 0 ps []")
  case (Inl e)
  with assms have False unfolding POST_def try_block_def by simp
  then show ?thesis ..
next
  case (Inr cs)
  with assms show ?thesis unfolding POST_def try_block_def by simp
qed

text \<open>
  Claim C9, as amended. In a successful response the file name of participant \<open>i\<close> is
  \<open>Certificate_\<close>, then a text in which every code unit outside \<open>a-z\<close>, \<open>A-Z\<close>
  and \<open>0-9\<close> is replaced by an underscore, then \<open>.pdf\<close>. The text is the
  participant's name when that is a non-empty string, and the literal
  \<open>certificate\<close> when the name is missing or empty.
\<close>

theorem filename_of_participant:
  assumes "get body ''participants'' = Inr (Arr ps)" "ps \<noteq> []"
    and "POST clk (Some body) = \<lparr>status = 200, json = Succeeded n certs\<rparr>"
    and "i < length ps"
    and "get (ps ! i) ''name'' = Inr v"
  shows "filename (certs ! i) = str ''Certificate_'' @ sanitize (name_for_file v) @ str ''.pdf''
     \<and> name_for_file v = (case v of Str s \<Rightarrow> if s = [] then str ''certificate'' else s
                                   | _ \<Rightarrow> str ''certificate'')
     \<and> sanitize (name_for_file v) = map (\<lambda>c. if is_alnum c then c else 0x5F) (name_for_file v)"
proof -
  have "generate_all clk 0 ps [] = Inr certs"
    using assms(1-3) by (rule successful_response)
  from generate_all_entries [OF this] assms(4)
  have "certificate_for clk i (ps ! i) = Inr (certs ! i)" by auto
  from certificate_for_filename [OF this] assms(5)
  have "filename (certs ! i) = str ''Certificate_'' @ sanitize (name_for_file v) @ str ''.pdf''"
    by auto
  then show ?thesis
    by (simp add: name_for_file_def sanitize_def)
qed

theorem filename_of_participant_witness:
  "get (batch [alice_participant]) ''participants'' = Inr (Arr [alice_participant])
   \<and> [alice_participant] \<noteq> []
   \<and> POST clock0 (Some (batch [alice_participant])) =
       \<lparr>status = 200, json = Succeeded 1 [alice_certificate]\<rparr>
   \<and> (0::nat) < length [alice_participant]
   \<and> get ([alice_participant] ! 0) ''name'' = Inr (Str (str ''Alice Johnson''))
   \<and> filename ([alice_certificate] ! 0) = str ''Certificate_Alice_Johnson.pdf''
   \<and> str ''Certificate_'' @ sanitize (name_for_file (Str (str ''Alice Johnson''))) @ str ''.pdf'' =
       str ''Certificate_Alice_Johnson.pdf''"
proof -
  have 1: "get (batch [alice_participant]) ''participants'' = Inr (Arr [alice_participant])"
    by (rule get_batch)
  have 2: "[alice_participant] \<noteq> []" by simp
  have 3: "POST clock0 (Some (batch [alice_participant])) =
       \<lparr>status = 200, json = Succeeded 1 [alice_certificate]\<rparr>"
    unfolding POST_def try_block_def by (simp add: get_batch alice_run)
  have 4: "(0::nat) < length [alice_participant]" by simp
  have 5: "get ([alice_participant] ! 0) ''name'' = Inr (Str (str ''Alice Johnson''))"
    by (simp add: alice_participant_def)
  have 6: "filename ([alice_certificate] ! 0) = str ''Certificate_Alice_Johnson.pdf''"
    by (simp add: alice_certificate_def)
  from filename_of_participant [OF 1 2 3 4 5] 6
  have "str ''Certificate_'' @ sanitize (name_for_file (Str (str ''Alice Johnson''))) @ str ''.pdf'' =
       str ''Certificate_Alice_Johnson.pdf''"
    by simp
  with 1 2 3 4 5 6 show ?thesis by blast
qed

text \<open>
  The claim as stated fails for a participant whose name is the empty string: the file
  name is \<open>Certificate_certificate.pdf\<close>, which is not \<open>Certificate_\<close> followed
  by the name with its characters replaced, with or without the extension.
\<close>

theorem filename_counterexample:
  "map filename (certificates_of (POST clock0 (Some (batch [Obj [(str ''name'', Str [])]])))) =
     [str ''Certificate_certificate.pdf'']
   \<and> str ''Certificate_certificate.pdf'' \<noteq> str ''Certificate_'' @ sanitize []
   \<and> str ''Certificate_certificate.pdf'' \<noteq> str ''Certificate_'' @ sanitize [] @ str ''.pdf''"
proof -
  have "sanitize (str ''certificate'') = str ''certificate''"
    by (simp add: sanitize_def is_alnum_def str_def)
  then have "\<exists>c. certificate_for clock0 0 (Obj [(str ''name'', Str [])]) = Inr c \<and>
        filename c = str ''Certificate_certificate.pdf''"
    unfolding certificate_for_def
    by (simp add: str_eq_iff str_Nil_iff or_else_def generateCertificatePDF_js_def replace_non_alnum_def)
      (simp add: str_def)
  then obtain c where "certificate_for clock0 0 (Obj [(str ''name'', Str [])]) = Inr c"
    "filename c = str ''Certificate_certificate.pdf''" by blast
  then have "map filename (certificates_of (POST clock0 (Some (batch [Obj [(str ''name'', Str [])]])))) =
     [str ''Certificate_certificate.pdf'']"
    unfolding POST_def try_block_def certificates_of_def by (simp add: get_batch)
  then show ?thesis
    by (simp add: sanitize_def) (simp add: str_def)
qed

subsection \<open>The content stream in the returned buffer\<close>

lemma takeWhile_digits_then:
  "list_all is_digit ds \<Longrightarrow> r \<noteq> [] \<Longrightarrow> \<not> is_digit (hd r) \<Longrightarrow> takeWhile is_digit (ds @ r) = ds"
proof -
  assume a: "list_all is_digit ds" "r \<noteq> []" "\<not> is_digit (hd r)"
  then have "takeWhile is_digit r = []" by (cases r) simp_all
  moreover have "takeWhile is_digit (ds @ r) = ds @ takeWhile is_digit r"
    using a(1) by (intro takeWhile_append2) (simp add: list_all_iff)
  ultimately show ?thesis by simp
qed

lemma read_stream_shape:
  assumes n: "list_all is_digit n" "n \<noteq> []" and ds: "list_all is_digit ds" "ds \<noteq> []"
    and len: "length payload = read_decimal ds"
  shows "read_stream
           (pre @ n @ bytes '' 0 obj\<newline><< /Length '' @ ds @ bytes '' >>\<newline>stream\<newline>'' @
            payload @ bytes ''\<newline>endstream'' @ post) (length pre) = Some payload"
proof -
  define k where "k = bytes '' 0 obj\<newline><< /Length ''"
  define h where "h = bytes '' >>\<newline>stream\<newline>''"
  define e where "e = bytes ''\<newline>endstream''"
  have lk: "length k = 18" and lh: "length h = 11" and le: "length e = 10"
    by (simp_all add: k_def h_def e_def bytes_def)
  have k0: "k @ ds @ h @ payload @ e @ post \<noteq> []" "\<not> is_digit (hd (k @ ds @ h @ payload @ e @ post))"
    by (simp_all add: k_def bytes_def is_digit_def)
  have h0: "h @ payload @ e @ post \<noteq> []" "\<not> is_digit (hd (h @ payload @ e @ post))"
    by (simp_all add: h_def bytes_def is_digit_def)
  have 1: "takeWhile is_digit (n @ k @ ds @ h @ payload @ e @ post) = n"
    using n(1) k0 by (rule takeWhile_digits_then)
  have 2: "takeWhile is_digit (ds @ h @ payload @ e @ post) = ds"
    using ds(1) h0 by (rule takeWhile_digits_then)
  have "read_stream (pre @ n @ k @ ds @ h @ payload @ e @ post) (length pre) = Some payload"
    unfolding read_stream_def Let_def k_def [symmetric] h_def [symmetric] e_def [symmetric]
    using n(2) ds(2) len lk lh le by (simp add: 1 2)
  then show ?thesis unfolding k_def h_def e_def .
qed

lemma reads_stream:
  "read_stream (generateCertificatePDF data) (offsets data ! 3) = Some (utf8 (contentStream data))"
proof -
  define L where "L = byteLength (contentStream data)"
  define pre where "pre = take (offsets data ! 3) (generateCertificatePDF data)"
  define post where "post = utf8 (str ''\<newline>endobj\<newline>'' @ text_from data 4 @ xref_section data)"
  have le: "offsets data ! 3 \<le> length (generateCertificatePDF data)"
    by (rule offset_le_length) simp
  then have lp: "length pre = offsets data ! 3" by (simp add: pre_def)
  have a: "ascii (str ''4 0 obj\<newline><< /Length '' @ show_nat L @ str '' >>\<newline>stream\<newline>'')"
    by (simp add: ascii_str)
  have h: "utf8 (str ''4 0 obj\<newline><< /Length '' @ show_nat L @ str '' >>\<newline>stream\<newline>'') =
      bytes ''4'' @ bytes '' 0 obj\<newline><< /Length '' @ map ucast (show_nat L) @ bytes '' >>\<newline>stream\<newline>''"
    unfolding utf8_ascii [OF a] by (simp add: ucast_str [symmetric]) (simp add: str_def)
  have "generateCertificatePDF data = pre @ drop (offsets data ! 3) (generateCertificatePDF data)"
    by (simp add: pre_def)
  also have "drop (offsets data ! 3) (generateCertificatePDF data) =
      bytes ''4'' @ bytes '' 0 obj\<newline><< /Length '' @ map ucast (show_nat L) @ bytes '' >>\<newline>stream\<newline>'' @
      utf8 (contentStream data) @ bytes ''\<newline>endstream'' @ post"
    unfolding stream_layout L_def [symmetric] h post_def by simp
  finally have shape: "generateCertificatePDF data =
      pre @ bytes ''4'' @ bytes '' 0 obj\<newline><< /Length '' @ map ucast (show_nat L) @ bytes '' >>\<newline>stream\<newline>'' @
      utf8 (contentStream data) @ bytes ''\<newline>endstream'' @ post" .
  have n: "list_all is_digit (bytes ''4'')" "bytes ''4'' \<noteq> []"
    by (simp_all add: bytes_def is_digit_def)
  have ds: "list_all is_digit (map ucast (show_nat L) :: buffer)" "(map ucast (show_nat L) :: buffer) \<noteq> []"
    by (simp_all add: digits_show_nat)
  have len: "length (utf8 (contentStream data)) = read_decimal (map ucast (show_nat L))"
    by (simp add: read_decimal_show_nat L_def byteLength_def)
  show ?thesis
    using read_stream_shape [OF n ds len, of pre post] unfolding shape [symmetric] lp .
qed

lemma read_literal_body_plain:
  "c \<noteq> BACKSLASH \<Longrightarrow> c \<noteq> LPAREN \<Longrightarrow> c \<noteq> RPAREN \<Longrightarrow> t \<noteq> [] \<Longrightarrow>
   read_literal_body (c # t) = map_option (\<lambda>(u, r). (c # u, r)) (read_literal_body t)"
  by (cases t) simp_all

lemma read_literal_body_special:
  "read_literal_body (BACKSLASH # d # t) = map_option (\<lambda>(u, r). (d # u, r)) (read_literal_body t)"
  by (simp add: special_distinct)

lemma read_literal_body_escaped:
  "read_literal_body (concat (map escape_unit s) @ RPAREN # rest) = Some (s, rest)"
proof (induction s)
  case Nil
  show ?case by (cases rest) simp_all
next
  case (Cons c s)
  show ?case
  proof (cases "c = BACKSLASH \<or> c = LPAREN \<or> c = RPAREN")
    case True
    then have "escape_unit c = [BACKSLASH, c]" by (simp add: escape_unit_def)
    then show ?thesis using Cons by (simp add: read_literal_body_special del: read_literal_body.simps)
  next
    case False
    then have "escape_unit c = [c]" by (simp add: escape_unit_def)
    moreover have "concat (map escape_unit s) @ RPAREN # rest \<noteq> []" by simp
    ultimately show ?thesis
      using False Cons by (simp add: read_literal_body_plain del: read_literal_body.simps)
  qed
qed

lemma read_literal_escaped: "read_literal (string_literal s @ rest) = Some (s, rest)"
proof -
  have "str ''('' = [LPAREN]" "str '')'' = [RPAREN]"
    by (simp_all add: str_def LPAREN_def RPAREN_def)
  then show ?thesis
    by (simp add: read_literal_def string_literal_def read_literal_body_escaped)
qed

lemma length_contentLines: "length (contentLines data) = 100"
  by (simp add: contentLines_def Let_def)

lemma emitted_block:
  assumes k: "0 < k" and ls: "ls \<noteq> []" and lt: "k + length ls < 100"
    and eq: "take (length ls) (drop k (contentLines data)) = ls"
  shows "emitted_lines data k ls"
proof -
  define nl where "nl = str ''\<newline>''"
  define P where "P = take k (contentLines data)"
  define Q where "Q = drop (k + length ls) (contentLines data)"
  have nl: "nl = [0x0A]" by (simp add: nl_def str_def)
  have len: "length (contentLines data) = 100" by (rule length_contentLines)
  have P: "P \<noteq> []" using k len by (auto simp: P_def)
  have Q: "Q \<noteq> []" using lt len by (simp add: Q_def)
  have "drop k (contentLines data) = take (length ls) (drop k (contentLines data)) @ Q"
    unfolding Q_def using append_take_drop_id [of "length ls" "drop k (contentLines data)"]
    by (simp add: add.commute)
  then have split: "contentLines data = P @ ls @ Q"
    unfolding eq P_def using append_take_drop_id [of k "contentLines data"] by simp
  have lsQ: "ls @ Q \<noteq> []" using ls by simp
  have "join nl (P @ ls @ Q) = join nl P @ nl @ join nl (ls @ Q)"
    using P lsQ by (rule join_append)
  also have "join nl (ls @ Q) = join nl ls @ nl @ join nl Q"
    using ls Q by (rule join_append)
  finally have cs: "contentStream data = join nl P @ nl @ join nl ls @ nl @ join nl Q"
    by (simp add: contentStream_def split nl_def)
  have "\<not> (join nl P @ nl \<noteq> [] \<and> join nl ls @ nl @ join nl Q \<noteq> [] \<and>
      is_high_surrogate (last (join nl P @ nl)) \<and> is_low_surrogate (hd (join nl ls @ nl @ join nl Q)))"
    by (simp add: nl newline_not_high)
  then have 1: "utf8 ((join nl P @ nl) @ (join nl ls @ nl @ join nl Q)) =
      utf8 (join nl P @ nl) @ utf8 (join nl ls @ nl @ join nl Q)"
    by (rule utf8_append)
  have "\<not> is_low_surrogate 0x0A" by (simp add: is_low_surrogate_def)
  then have "\<not> (join nl ls \<noteq> [] \<and> nl @ join nl Q \<noteq> [] \<and>
      is_high_surrogate (last (join nl ls)) \<and> is_low_surrogate (hd (nl @ join nl Q)))"
    by (simp add: nl)
  then have 2: "utf8 (join nl ls @ (nl @ join nl Q)) = utf8 (join nl ls) @ utf8 (nl @ join nl Q)"
    by (rule utf8_append)
  have bytes: "utf8 (contentStream data) =
      utf8 (join nl P @ nl) @ utf8 (join nl ls) @ utf8 (nl @ join nl Q)"
    using 1 2 by (simp add: cs)
  have "bytes_at (utf8 (contentStream data)) (length (utf8 (join nl P @ nl))) (utf8 (join nl ls))"
    unfolding bytes bytes_at_def by simp
  then show ?thesis
    unfolding emitted_lines_def reads_stream line_position_def byteLength_def
    using cs by (simp add: P_def Q_def nl_def)
qed

lemma literal_line: "str ''('' @ escapeText s @ str '') Tj'' = string_literal s @ str '' Tj''"
  by (simp add: string_literal_def escapeText_single_pass) (simp add: str_def)

lemma name_block:
  "take 6 (drop 37 (contentLines data)) =
     [str ''BT'', str ''/F2 28 Tf'', str ''0.1 0.1 0.1 rg'',
      (if 7 * length (name data) \<le> 396 then show_nat (396 - 7 * length (name data))
       else str ''-'' @ show_nat (7 * length (name data) - 396)) @ str '' 410 Td'',
      string_literal (name data) @ str '' Tj'', str ''ET'']"
proof -
  have "take 6 (drop 37 (contentLines data)) =
     [str ''BT'', str ''/F2 28 Tf'', str ''0.1 0.1 0.1 rg'',
      show_num (396 - (14 * of_nat (length (name data))) / 2) @ str '' 410 Td'',
      str ''('' @ escapeText (name data) @ str '') Tj'', str ''ET'']"
    by (simp add: contentLines_def Let_def centerX_def pageWidth_def strlen_def)
  then show ?thesis
    unfolding literal_line show_num_int .
qed

lemma field_lines:
  "take 1 (drop 41 (contentLines data)) = [string_literal (name data) @ str '' Tj'']"
  "take 1 (drop 56 (contentLines data)) = [string_literal (course data) @ str '' Tj'']"
  "take 1 (drop 65 (contentLines data)) =
     [string_literal (str ''Completed on: '' @ date data) @ str '' Tj'']"
  "take 1 (drop 89 (contentLines data)) =
     [string_literal (str ''Certificate ID: '' @ certificate_id data) @ str '' Tj'']"
  by (simp_all add: contentLines_def Let_def literal_line)

lemma emitted_block_n:
  assumes "take n (drop k (contentLines data)) = ls" "length ls = n" "0 < k" "0 < n" "k + n < 100"
  shows "emitted_lines data k ls"
  using assms by (intro emitted_block) auto

lemma intro_basics:
  "string_literal (str ''Intro (Basics)'') @ str '' Tj'' =
     str ''(Intro '' @ [BACKSLASH] @ str ''(Basics'' @ [BACKSLASH] @ str '')) Tj''"
  by (simp add: string_literal_def escape_unit_def str_def BACKSLASH_def LPAREN_def RPAREN_def)

text \<open>
  Claim C7. The returned buffer holds the content stream as the payload of object 4, and
  in it the participant name is drawn by six consecutive lines, from line 37 on:
  \<open>BT\<close>, the font \<open>/F2\<close> at size 28, the fill colour \<open>0.1 0.1 0.1\<close>, a \<open>Td\<close> at
  \<open>x = 396 - (14 * length name) / 2\<close> and \<open>y = 410\<close>, the string literal of the name
  (a backslash before each backslash and parenthesis) with \<open>Tj\<close>, and \<open>ET\<close>. The
  length is the number of UTF-16 code units of the name, so \<open>x\<close> is the integer
  \<open>396 - 7 * length name\<close>, printed with a minus sign once the name has more than 56
  code units.
\<close>

theorem participant_name_rendering:
  "emitted_lines data 37
     [str ''BT'', str ''/F2 28 Tf'', str ''0.1 0.1 0.1 rg'',
      (if 7 * length (name data) \<le> 396 then show_nat (396 - 7 * length (name data))
       else str ''-'' @ show_nat (7 * length (name data) - 396)) @ str '' 410 Td'',
      string_literal (name data) @ str '' Tj'', str ''ET'']
   \<and> show_num (396 - (14 * of_nat (length (name data))) / 2) =
       (if 7 * length (name data) \<le> 396 then show_nat (396 - 7 * length (name data))
        else str ''-'' @ show_nat (7 * length (name data) - 396))"
proof
  show "emitted_lines data 37
     [str ''BT'', str ''/F2 28 Tf'', str ''0.1 0.1 0.1 rg'',
      (if 7 * length (name data) \<le> 396 then show_nat (396 - 7 * length (name data))
       else str ''-'' @ show_nat (7 * length (name data) - 396)) @ str '' 410 Td'',
      string_literal (name data) @ str '' Tj'', str ''ET'']"
    by (rule emitted_block_n [OF name_block]) simp_all
  show "show_num (396 - (14 * of_nat (length (name data))) / 2) =
       (if 7 * length (name data) \<le> 396 then show_nat (396 - 7 * length (name data))
        else str ''-'' @ show_nat (7 * length (name data) - 396))"
    by (rule show_num_int)
qed

text \<open>
  Claim C4. The four texts that come from the request (name, course, the date label and
  the identifier label) are in the content stream of the returned buffer as string
  literals: between parentheses, with one backslash before each backslash and each
  parenthesis and nothing else changed. Reading a literal back gives the text it was
  made from, for every text, and what follows the literal; reversing the rule on the
  escaped text gives the text back. \<open>escapeText\<close>, which replaces the backslash
  first and then the two parentheses, is this rule, and it is injective. For the course
  \<open>Intro (Basics)\<close> the buffer has the line \<open>(Intro \(Basics\)) Tj\<close>.
\<close>

theorem emitted_literals_round_trip:
  "emitted_lines data 41 [string_literal (name data) @ str '' Tj'']
   \<and> emitted_lines data 56 [string_literal (course data) @ str '' Tj'']
   \<and> emitted_lines data 65 [string_literal (str ''Completed on: '' @ date data) @ str '' Tj'']
   \<and> emitted_lines data 89
        [string_literal (str ''Certificate ID: '' @ certificate_id data) @ str '' Tj'']
   \<and> read_literal (string_literal s @ rest) = Some (s, rest)
   \<and> unescapeText (concat (map escape_unit s)) = s
   \<and> escapeText s = concat (map escape_unit s)
   \<and> inj escapeText
   \<and> emitted_lines (data\<lparr>course := str ''Intro (Basics)''\<rparr>) 56
        [str ''(Intro '' @ [BACKSLASH] @ str ''(Basics'' @ [BACKSLASH] @ str '')) Tj'']"
proof -
  have 1: "emitted_lines data 41 [string_literal (name data) @ str '' Tj'']"
    by (rule emitted_block_n [OF field_lines(1)]) simp_all
  have 2: "emitted_lines d 56 [string_literal (course d) @ str '' Tj'']"
    for d :: "'a CertificateRequest_scheme"
    by (rule emitted_block_n [OF field_lines(2)]) simp_all
  have 3: "emitted_lines data 65 [string_literal (str ''Completed on: '' @ date data) @ str '' Tj'']"
    by (rule emitted_block_n [OF field_lines(3)]) simp_all
  have 4: "emitted_lines data 89
        [string_literal (str ''Certificate ID: '' @ certificate_id data) @ str '' Tj'']"
    by (rule emitted_block_n [OF field_lines(4)]) simp_all
  have 5: "inj escapeText"
    by (rule inj_on_inverseI [where g = unescapeText]) (rule unescape_escape)
  have 6: "unescapeText (concat (map escape_unit s)) = s"
    using unescape_escape [of s] by (simp only: escapeText_single_pass)
  have 7: "emitted_lines (data\<lparr>course := str ''Intro (Basics)''\<rparr>) 56
        [str ''(Intro '' @ [BACKSLASH] @ str ''(Basics'' @ [BACKSLASH] @ str '')) Tj'']"
    using 2 [of "data\<lparr>course := str ''Intro (Basics)''\<rparr>"] by (simp add: intro_basics)
  show ?thesis
    using 1 2 [of data] 3 4 5 6 7 read_literal_escaped [of s rest] escapeText_single_pass [of s]
    by blast
qed

subsection \<open>The limit on the length of a string\<close>

lemma length_replace_all_ge: "length s \<le> length (replace_all c [a, b] s)"
  by (induction s) (simp_all add: replace_all_def)

lemma length_replace_all_le: "length (replace_all c [a, b] s) \<le> 2 * length s"
  by (induction s) (simp_all add: replace_all_def)

lemma escapeText_strings_le:
  "s \<in> set (escapeText_strings t) \<Longrightarrow> length s \<le> length (escapeText t)"
  unfolding escapeText_strings_def escapeText_def
  using length_replace_all_ge [of "replace_all BACKSLASH [BACKSLASH, BACKSLASH] t" LPAREN BACKSLASH LPAREN]
    length_replace_all_ge [of "replace_all LPAREN [BACKSLASH, LPAREN] (replace_all BACKSLASH [BACKSLASH, BACKSLASH] t)" RPAREN BACKSLASH RPAREN]
  by auto

lemma length_escapeText_ge: "length t \<le> length (escapeText t)"
  unfolding escapeText_def
  using length_replace_all_ge [of t BACKSLASH BACKSLASH BACKSLASH]
    length_replace_all_ge [of "replace_all BACKSLASH [BACKSLASH, BACKSLASH] t" LPAREN BACKSLASH LPAREN]
    length_replace_all_ge [of "replace_all LPAREN [BACKSLASH, LPAREN] (replace_all BACKSLASH [BACKSLASH, BACKSLASH] t)" RPAREN BACKSLASH RPAREN]
  by linarith

lemma length_escape_unit: "length (escape_unit c) \<le> 2"
  by (simp add: escape_unit_def)

lemma length_escapeText_le: "length (escapeText t) \<le> 2 * length t"
  unfolding escapeText_single_pass
  by (induction t) (simp_all add: escape_unit_def)

lemma length_le_join: "x \<in> set xs \<Longrightarrow> length x \<le> length (join sep xs)"
proof (induction sep xs rule: join.induct)
  case (3 sep y z zs)
  then show ?case by auto
qed simp_all

lemma length_le_concat: "x \<in> set xs \<Longrightarrow> length x \<le> length (concat xs)"
  by (induction xs) auto

lemma append_objects_strings_le:
  "s \<in> set (append_objects_strings pdf objs) \<Longrightarrow>
   length s \<le> length (fst (append_objects pdf offs objs))"
proof (induction objs arbitrary: pdf offs)
  case Nil
  then show ?case by simp
next
  case (Cons obj objs)
  have ge: "length (pdf @ obj @ str ''\<newline>'') \<le>
      length (fst (append_objects (pdf @ obj @ str ''\<newline>'') (offs @ [byteLength pdf]) objs))"
    unfolding append_objects_fst by simp
  from Cons.prems consider "s = obj @ str ''\<newline>''" | "s = pdf @ obj @ str ''\<newline>''"
    | "s \<in> set (append_objects_strings (pdf @ obj @ str ''\<newline>'') objs)" by auto
  then show ?case
  proof cases
    case 1
    with ge show ?thesis by simp
  next
    case 2
    with ge show ?thesis by simp
  next
    case 3
    from Cons.IH [OF this] show ?thesis by simp
  qed
qed

lemma length_padStart_ge: "length s \<le> length (padStart n c s)"
  by (simp add: padStart_def)

lemma append_xref_strings_le:
  "s \<in> set (append_xref_strings pdf offs) \<Longrightarrow> length s \<le> length (append_xref pdf offs)"
proof (induction offs arbitrary: pdf)
  case Nil
  then show ?case by simp
next
  case (Cons offset offs)
  define line where "line = padStart 10 (digit 0) (show_nat offset) @ str '' 00000 n \<newline>''"
  have ge: "length (pdf @ line) \<le> length (append_xref (pdf @ line) offs)"
    unfolding append_xref_concat by simp
  have pad: "length (show_nat offset) \<le> length (padStart 10 (digit 0) (show_nat offset))"
    by (rule length_padStart_ge)
  have step: "append_xref pdf (offset # offs) = append_xref (pdf @ line) offs"
    by (simp add: line_def)
  have line: "length (padStart 10 (digit 0) (show_nat offset)) \<le> length line"
    by (simp add: line_def)
  from Cons.prems consider "s = show_nat offset" | "s = padStart 10 (digit 0) (show_nat offset)"
    | "s = line" | "s = pdf @ line" | "s \<in> set (append_xref_strings (pdf @ line) offs)"
    by (auto simp: line_def)
  then have "length s \<le> length (append_xref (pdf @ line) offs)"
  proof cases
    case 1
    with ge pad line show ?thesis by simp
  next
    case 2
    with ge line show ?thesis by simp
  next
    case 3
    with ge show ?thesis by simp
  next
    case 4
    with ge show ?thesis by simp
  next
    case 5
    from Cons.IH [OF this] show ?thesis .
  qed
  then show ?case by (simp only: step)
qed

lemma stream_le_object: "length (contentStream data) \<le> length (objects data ! 3)"
  by (simp add: objects_nth object_bodies_def numbered_object_def)

lemma take_7_objects: "take 7 (objects data) = objects data"
  by (simp add: length_objects)

lemma object_le_text: "obj \<in> set (objects data) \<Longrightarrow> length obj \<le> length (text_before data 7)"
proof -
  assume "obj \<in> set (objects data)"
  then have "obj @ str ''\<newline>'' \<in> set (map (\<lambda>obj. obj @ str ''\<newline>'') (objects data))" by simp
  from length_le_concat [OF this] show ?thesis
    unfolding text_before_def take_7_objects by simp
qed

lemma text_le_pdf: "length (text_before data 7) \<le> length (pdf_text data)"
  by (simp add: pdf_text_eq)

lemma stream_le_pdf: "length (contentStream data) \<le> length (pdf_text data)"
proof -
  have "objects data ! 3 \<in> set (objects data)" by (simp add: length_objects)
  from object_le_text [OF this] stream_le_object [of data] text_le_pdf [of data]
  show ?thesis by linarith
qed

lemma line_le_pdf: "l \<in> set (contentLines data) \<Longrightarrow> length l \<le> length (pdf_text data)"
  using length_le_join [of l "contentLines data" "str ''\<newline>''"] stream_le_pdf [of data]
  by (simp add: contentStream_def)

lemma literal_lines:
  "t \<in> {str ''CERTIFICATE'', str ''OF COMPLETION'', str ''This is to certify that'',
         name data, str ''has successfully completed the course'', course data,
         str ''Completed on: '' @ date data, str ''Certificate ID: '' @ certificate_id data,
         str ''Powered by CertifyFlow''} \<Longrightarrow>
   str ''('' @ escapeText t @ str '') Tj'' \<in> set (contentLines data)"
  unfolding contentLines_def Let_def by (elim insertE emptyE) simp_all

lemma escaped_le_pdf:
  assumes "t \<in> {str ''CERTIFICATE'', str ''OF COMPLETION'', str ''This is to certify that'',
         name data, str ''has successfully completed the course'', course data,
         str ''Completed on: '' @ date data, str ''Certificate ID: '' @ certificate_id data,
         str ''Powered by CertifyFlow''}"
  shows "length (escapeText t) \<le> length (pdf_text data)"
  using line_le_pdf [OF literal_lines [OF assms]] by simp

lemma strings_built_le:
  assumes "s \<in> set (strings_built data)"
  shows "length s \<le> length (pdf_text data)"
proof -
  define dateLabel where "dateLabel = str ''Completed on: '' @ date data"
  define idLabel where "idLabel = str ''Certificate ID: '' @ certificate_id data"
  define texts where "texts = {str ''CERTIFICATE'', str ''OF COMPLETION'', str ''This is to certify that'',
         name data, str ''has successfully completed the course'', course data,
         dateLabel, idLabel, str ''Powered by CertifyFlow''}"
  define head where "head = str ''xref\<newline>0 '' @ show_nat (snd (build_objects (contentStream data))) @
     str ''\<newline>0000000000 65535 f \<newline>''"
  define pdf' where "pdf' = fst (pdf_objects data) @ head"
  define pdf'' where "pdf'' = append_xref pdf' (offsets data)"
  define tail where "tail = str ''trailer\<newline><< /Size '' @ show_nat (snd (build_objects (contentStream data))) @
                 str '' /Root 1 0 R >>\<newline>startxref\<newline>'' @ show_nat (xrefOffset data) @
                 str ''\<newline>%%EOF''"
  have pt: "pdf_text data = pdf'' @ tail"
    unfolding pdf_text_def Let_def pdf''_def pdf'_def head_def tail_def by simp
  have first: "fst (append_objects (str ''%PDF-1.4\<newline>'') [] (objects data)) = fst (pdf_objects data)"
    by (simp add: pdf_objects_def objects_def)
  have pdf': "length pdf' \<le> length pdf''"
    unfolding pdf''_def append_xref_concat by simp
  have esc: "t \<in> texts \<Longrightarrow> length (escapeText t) \<le> length (pdf_text data)" for t
    unfolding texts_def dateLabel_def idLabel_def by (rule escaped_le_pdf)
  from assms consider
      (label) "s = dateLabel \<or> s = idLabel"
    | (esc) t where "t \<in> texts" "s \<in> set (escapeText_strings t)"
    | (line) "s \<in> set (contentLines data)"
    | (stream) "s = contentStream data"
    | (obj) "s \<in> set (objects data)"
    | (loop1) "s \<in> set (append_objects_strings (str ''%PDF-1.4\<newline>'') (objects data))"
    | (head) "s = head \<or> s = pdf'"
    | (loop2) "s \<in> set (append_xref_strings pdf' (offsets data))"
    | (tail) "s = tail \<or> s = pdf'' @ tail"
    unfolding strings_built_def Let_def dateLabel_def idLabel_def texts_def head_def pdf'_def
      pdf''_def tail_def
    by auto
  then show ?thesis
  proof cases
    case label
    have "dateLabel \<in> texts" "idLabel \<in> texts" by (simp_all add: texts_def)
    from esc [OF this(1)] esc [OF this(2)] length_escapeText_ge [of dateLabel]
      length_escapeText_ge [of idLabel] label
    show ?thesis by auto
  next
    case esc
    from escapeText_strings_le [OF esc(2)] \<open>t \<in> texts \<Longrightarrow> length (escapeText t) \<le> length (pdf_text data)\<close> [OF esc(1)]
    show ?thesis by linarith
  next
    case line
    then show ?thesis by (rule line_le_pdf)
  next
    case stream
    then show ?thesis by (simp add: stream_le_pdf)
  next
    case obj
    from object_le_text [OF this] text_le_pdf [of data] show ?thesis by linarith
  next
    case loop1
    from append_objects_strings_le [OF this, of "[]"] text_le_pdf [of data]
    show ?thesis unfolding first pdf_objects_fst by linarith
  next
    case head
    with pdf' show ?thesis unfolding pt by (auto simp: pdf'_def)
  next
    case loop2
    from append_xref_strings_le [OF this] show ?thesis unfolding pt pdf''_def by simp
  next
    case tail
    then show ?thesis unfolding pt by auto
  qed
qed

lemma pdf_text_built: "pdf_text data \<in> set (strings_built data)"
  unfolding strings_built_def pdf_text_def Let_def by simp

lemma checked_iff:
  "generateCertificatePDF_checked max_length data =
     (if length (pdf_text data) \<le> max_length then Inr (generateCertificatePDF data)
      else Inl RangeError)"
proof (cases "length (pdf_text data) \<le> max_length")
  case True
  then have "list_all (\<lambda>s. length s \<le> max_length) (strings_built data)"
    unfolding list_all_iff using strings_built_le [of _ data] by (meson le_trans)
  with True show ?thesis by (simp add: generateCertificatePDF_checked_def)
next
  case False
  with pdf_text_built [of data] have "\<not> list_all (\<lambda>s. length s \<le> max_length) (strings_built data)"
    unfolding list_all_iff by blast
  with False show ?thesis by (simp add: generateCertificatePDF_checked_def)
qed

lemma length_utf8_code_point: "length (utf8_code_point cp) \<le> 4"
  by (simp add: utf8_code_point_def)

lemma length_utf8_unit: "length (utf8_unit c) \<le> 3"
proof -
  have "unat c < 0x10000" using unsigned_less [of c] by simp
  then show ?thesis by (simp add: utf8_unit_def utf8_code_point_def)
qed

lemma length_utf8_le: "length (utf8 s) \<le> 3 * length s"
proof (induction s rule: utf8.induct)
  case 1
  then show ?case by simp
next
  case (2 c)
  then show ?case using length_utf8_unit [of c] by simp
next
  case (3 c d cs)
  show ?case
  proof (cases "is_high_surrogate c \<and> is_low_surrogate d")
    case True
    with 3(1) [OF True] length_utf8_code_point [of "0x10000 + (unat c - 0xD800) * 1024 + (unat d - 0xDC00)"]
    show ?thesis by simp
  next
    case False
    with 3(2) [OF False] length_utf8_unit [of c] show ?thesis by auto
  qed
qed

lemma length_show_num:
  assumes "\<bar>x\<bar> < 10 ^ 20"
  shows "length (show_num x) \<le> 24"
proof -
  define q where "q = nat \<lfloor>\<bar>x\<bar> * 4\<rfloor>"
  have "\<lfloor>\<bar>x\<bar> * 4\<rfloor> < 4 * 10 ^ 20"
  proof -
    have "\<bar>x\<bar> * 4 < of_int (4 * 10 ^ 20)" using assms by simp
    then show ?thesis by (simp only: floor_less_iff)
  qed
  moreover have "0 \<le> \<lfloor>\<bar>x\<bar> * 4\<rfloor>" by simp
  ultimately have "q < 4 * 10 ^ 20" unfolding q_def by (simp add: nat_less_iff)
  then have "q div 4 < 10 ^ 20" by simp
  from length_show_nat [OF this] have "length (show_nat (q div 4)) \<le> 20" by simp
  then show ?thesis
    unfolding show_num_def Let_def q_def [symmetric] by (simp add: str_def)
qed

lemma length_td:
  assumes "length s \<le> 2 ^ 54" "0 \<le> c" "c \<le> 14"
  shows "length (show_num (centerX - strlen s * c / 2)) \<le> 24"
proof (rule length_show_num)
  have n: "(of_nat (length s) :: rat) \<le> 2 ^ 54"
    using assms(1) by (metis of_nat_le_iff of_nat_numeral of_nat_power)
  have "of_nat (length s) * c \<le> 2 ^ 54 * (14::rat)"
    by (rule mult_mono) (use n assms in simp_all)
  moreover have "0 \<le> of_nat (length s) * c" using assms(2) by simp
  ultimately have "\<bar>396 - of_nat (length s) * c / 2\<bar> < (10::rat) ^ 20" by (simp add: abs_if)
  then show "\<bar>centerX - strlen s * c / 2\<bar> < 10 ^ 20"
    by (simp add: centerX_def pageWidth_def strlen_def)
qed

lemma length_join:
  "length (join sep xs) = sum_list (map length xs) + (length xs - 1) * length sep"
  by (induction sep xs rule: join.induct) simp_all

lemma content_length:
  "length (contentStream data) =
     1188 + length (show_num (centerX - strlen (name data) * 14 / 2))
          + length (escapeText (name data))
          + length (show_num (centerX - strlen (course data) * 11 / 2))
          + length (escapeText (course data))
          + length (show_num (centerX - strlen (str ''Completed on: '' @ date data) * 6 / 2))
          + length (escapeText (str ''Completed on: '' @ date data))
          + length (show_num (centerX - strlen (str ''Certificate ID: '' @ certificate_id data) * 4.5 / 2))
          + length (escapeText (str ''Certificate ID: '' @ certificate_id data))"
proof -
  define x1 where "x1 = show_num (centerX - strlen (name data) * 14 / 2)"
  define x2 where "x2 = show_num (centerX - strlen (course data) * 11 / 2)"
  define x3 where "x3 = show_num (centerX - strlen (str ''Completed on: '' @ date data) * 6 / 2)"
  define x4 where "x4 = show_num (centerX - strlen (str ''Certificate ID: '' @ certificate_id data) * 4.5 / 2)"
  define e1 where "e1 = escapeText (name data)"
  define e2 where "e2 = escapeText (course data)"
  define e3 where "e3 = escapeText (str ''Completed on: '' @ date data)"
  define e4 where "e4 = escapeText (str ''Certificate ID: '' @ certificate_id data)"
  have "length (contentStream data) =
     1188 + length x1 + length e1 + length x2 + length e2 + length x3 + length e3
          + length x4 + length e4"
    unfolding contentStream_def contentLines_def Let_def
    unfolding x1_def [symmetric] x2_def [symmetric] x3_def [symmetric] x4_def [symmetric]
      e1_def [symmetric] e2_def [symmetric] e3_def [symmetric] e4_def [symmetric]
    by (simp add: length_join str_def show_num_def Let_def
      escapeText_def replace_all_def BACKSLASH_def LPAREN_def RPAREN_def
      strlen_def centerX_def pageWidth_def pageHeight_def digit_def show_nat_numeral show_nat_small)
  then show ?thesis
    unfolding x1_def x2_def x3_def x4_def e1_def e2_def e3_def e4_def .
qed

lemma text_length:
  "length (text_before data 7) =
     603 + length (show_nat (byteLength (contentStream data))) + length (contentStream data)"
  unfolding text_before_def objects_eq upt_1_8
  by (simp add: object_bodies_def numbered_object_def show_num_def Let_def pageWidth_def
      pageHeight_def show_nat_numeral show_nat_small str_def)

lemma xref_section_length:
  "length (xref_section data) =
     79 + length (concat (map xref_line (offsets data))) + length (show_nat (xrefOffset data))"
  by (simp add: xref_section_def str_def)

lemma length_xref_line: "20 \<le> length (xref_line offset)"
  by (simp add: xref_line_def padStart_def str_def)

lemma length_xref_line_le: "offset < 10 ^ 20 \<Longrightarrow> length (xref_line offset) \<le> 30"
  using length_show_nat [of offset 20] by (simp add: xref_line_def padStart_def str_def)

lemma length_xref_lines:
  "20 * length offs \<le> length (concat (map xref_line offs))"
  by (induction offs) (use length_xref_line in \<open>simp_all add: add_mono\<close>)

lemma length_xref_lines_le:
  "\<forall>offset \<in> set offs. offset < 10 ^ 20 \<Longrightarrow> length (concat (map xref_line offs)) \<le> 30 * length offs"
  by (induction offs) (use length_xref_line_le in \<open>simp_all add: add_mono\<close>)

lemma offsets_le_xrefOffset: "offset \<in> set (offsets data) \<Longrightarrow> offset \<le> xrefOffset data"
proof -
  assume "offset \<in> set (offsets data)"
  then obtain k where k: "k < 7" "offset = offsets data ! k"
    by (auto simp: in_set_conv_nth length_offsets)
  with offset_mono [of k 7 data] show ?thesis
    by (simp add: offsets_nth xrefOffset_eq)
qed

lemma length_show_num_ge: "1 \<le> length (show_num x)"
proof -
  have "1 \<le> length (show_nat n)" for n
    using show_nat_not_Nil [of n] by (cases "show_nat n") simp_all
  then show ?thesis
    unfolding show_num_def Let_def by (simp add: add_increasing add_increasing2)
qed

lemma sum_le:
  fixes n c d i x1 x2 x3 x4 e1 e2 e3 e4 :: nat
  assumes "x1 \<le> 24" "x2 \<le> 24" "x3 \<le> 24" "x4 \<le> 24"
    "e1 \<le> 2 * n" "e2 \<le> 2 * c" "e3 \<le> 2 * (14 + d)" "e4 \<le> 2 * (16 + i)"
  shows "1188 + x1 + e1 + x2 + e2 + x3 + e3 + x4 + e4 \<le> 2 * (n + c + d + i) + 1344"
  using assms by simp

lemma content_length_le:
  assumes "fields_length data \<le> 2 ^ 53"
  shows "length (contentStream data) \<le> 2 * fields_length data + 1344"
proof -
  have n: "length (name data) \<le> 2 ^ 54" "length (course data) \<le> 2 ^ 54"
    "length (str ''Completed on: '' @ date data) \<le> 2 ^ 54"
    "length (str ''Certificate ID: '' @ certificate_id data) \<le> 2 ^ 54"
    using assms by (simp_all add: fields_length_def str_def)
  have x: "length (show_num (centerX - strlen (name data) * 14 / 2)) \<le> 24"
    "length (show_num (centerX - strlen (course data) * 11 / 2)) \<le> 24"
    "length (show_num (centerX - strlen (str ''Completed on: '' @ date data) * 6 / 2)) \<le> 24"
    "length (show_num (centerX - strlen (str ''Certificate ID: '' @ certificate_id data) * 4.5 / 2)) \<le> 24"
    by (rule length_td [OF n(1)], simp, simp) (rule length_td [OF n(2)], simp, simp,
        rule length_td [OF n(3)], simp, simp, rule length_td [OF n(4)], simp, simp)
  have e: "length (escapeText (name data)) \<le> 2 * length (name data)"
    "length (escapeText (course data)) \<le> 2 * length (course data)"
    "length (escapeText (str ''Completed on: '' @ date data)) \<le> 2 * (14 + length (date data))"
    "length (escapeText (str ''Certificate ID: '' @ certificate_id data)) \<le> 2 * (16 + length (certificate_id data))"
    using length_escapeText_le [of "name data"] length_escapeText_le [of "course data"]
      length_escapeText_le [of "str ''Completed on: '' @ date data"]
      length_escapeText_le [of "str ''Certificate ID: '' @ certificate_id data"]
    by (simp_all add: str_def)
  show ?thesis
    unfolding content_length fields_length_def by (rule sum_le [OF x e])
qed

lemma content_length_ge: "fields_length data + 1222 \<le> length (contentStream data)"
proof -
  have e: "length (name data) \<le> length (escapeText (name data))"
    "length (course data) \<le> length (escapeText (course data))"
    "14 + length (date data) \<le> length (escapeText (str ''Completed on: '' @ date data))"
    "16 + length (certificate_id data) \<le> length (escapeText (str ''Certificate ID: '' @ certificate_id data))"
    using length_escapeText_ge [of "name data"] length_escapeText_ge [of "course data"]
      length_escapeText_ge [of "str ''Completed on: '' @ date data"]
      length_escapeText_ge [of "str ''Certificate ID: '' @ certificate_id data"]
    by (simp_all add: str_def)
  show ?thesis
    unfolding content_length fields_length_def
    using e length_show_num_ge [of "centerX - strlen (name data) * 14 / 2"]
      length_show_num_ge [of "centerX - strlen (course data) * 11 / 2"]
      length_show_num_ge [of "centerX - strlen (str ''Completed on: '' @ date data) * 6 / 2"]
      length_show_num_ge [of "centerX - strlen (str ''Certificate ID: '' @ certificate_id data) * 4.5 / 2"]
    by linarith
qed

lemma pdf_text_length_le:
  assumes "fields_length data \<le> 2 ^ 53"
  shows "length (pdf_text data) \<le> 2 * fields_length data + 2276"
proof -
  note c = content_length_le [OF assms]
  have "byteLength (contentStream data) \<le> 3 * length (contentStream data)"
    unfolding byteLength_def by (rule length_utf8_le)
  with c assms have "byteLength (contentStream data) < 10 ^ 20" by simp
  from length_show_nat [OF this]
  have l: "length (show_nat (byteLength (contentStream data))) \<le> 20" by simp
  have t: "length (text_before data 7) \<le> 2 * fields_length data + 1967"
    unfolding text_length using c l by linarith
  have "xrefOffset data \<le> 3 * length (text_before data 7)"
    unfolding xrefOffset_eq byteLength_def by (rule length_utf8_le)
  with t assms have xo: "xrefOffset data < 10 ^ 20" by simp
  from length_show_nat [OF this] have xl: "length (show_nat (xrefOffset data)) \<le> 20" by simp
  have "\<forall>offset \<in> set (offsets data). offset < 10 ^ 20"
    using offsets_le_xrefOffset [of _ data] xo by (meson le_less_trans)
  from length_xref_lines_le [OF this]
  have "length (concat (map xref_line (offsets data))) \<le> 210" by (simp add: length_offsets)
  with xl have "length (xref_section data) \<le> 309" unfolding xref_section_length by linarith
  with t show ?thesis unfolding pdf_text_eq by simp
qed

lemma pdf_text_length_ge: "fields_length data + 2046 \<le> length (pdf_text data)"
proof -
  have "1 \<le> length (show_nat n)" for n
    using show_nat_not_Nil [of n] by (cases "show_nat n") simp_all
  from this [of "byteLength (contentStream data)"] this [of "xrefOffset data"]
    content_length_ge [of data] length_xref_lines [of "offsets data"]
  show ?thesis
    unfolding pdf_text_eq length_append text_length xref_section_length length_offsets
    by linarith
qed

lemma longest_name: "length (name longest) = 2 ^ 29 - 24"
  by (simp only: longest_def CertificateRequest.select_convs length_replicate)

lemma name_le_fields: "length (name data) \<le> fields_length data"
  by (simp add: fields_length_def)




end
